theory Spec2Isabelle
  imports Complex_Main "HOL-Library.Char_ord"
begin

section \<open>Python values shared by the three source files\<close>

text \<open>
  Python's dynamically typed values, as far as the sources build them: the JSON bodies of
  responses (\<open>content={...}\<close>), the items of an error location and the rows of a page.
  Dictionaries keep their insertion order, so they are association lists.
\<close>

datatype py_value =
    PNone
  | PBool bool
  | PInt int
  | PStr string
  | PList "py_value list"
  | PDict "(string \<times> py_value) list"

text \<open>The exceptions the sources raise or can meet.\<close>

datatype py_error = ValueError string | ZeroDivisionError | IndexError

text \<open>\<open>str(n)\<close> for an integer: decimal digits, with a minus sign below zero.\<close>

fun nat_digits :: "nat \<Rightarrow> string" where
  "nat_digits n =
     (if n < 10 then [char_of (48 + n)]
      else nat_digits (n div 10) @ [char_of (48 + n mod 10)])"

declare nat_digits.simps [simp del]

definition str_int :: "int \<Rightarrow> string" where
  "str_int i = (if i < 0 then CHR ''-'' # nat_digits (nat (- i)) else nat_digits (nat i))"

text \<open>\<open>sep.join(parts)\<close>.\<close>

fun join :: "string \<Rightarrow> string list \<Rightarrow> string" where
  "join sep [] = []"
| "join sep [x] = x"
| "join sep (x # y # ys) = x @ sep @ join sep (y # ys)"

text \<open>
  The names and values of HTTP headers, the paths, the messages and the keys of
  dictionaries are sequences of code points below 256 (the Latin-1 block of Unicode,
  which holds ASCII and in which the framework encodes headers); \<open>str.lower()\<close> on
  them moves \<open>A-Z\<close> and the accented capitals \<open>U+00C0-U+00D6\<close>, \<open>U+00D8-U+00DE\<close> up
  by 32 and keeps every other code point.
\<close>

definition lower_char :: "char \<Rightarrow> char" where
  "lower_char c =
     (if (CHR ''A'' \<le> c \<and> c \<le> CHR ''Z'') \<or> (CHR 0xC0 \<le> c \<and> c \<le> CHR 0xD6) \<or>
         (CHR 0xD8 \<le> c \<and> c \<le> CHR 0xDE)
      then char_of (of_char c + 32 :: nat) else c)"

definition lower :: "string \<Rightarrow> string" where
  "lower s = map lower_char s"

text \<open>\<open>s.startswith(p)\<close>.\<close>

definition startswith :: "string \<Rightarrow> string \<Rightarrow> bool" where
  "startswith s p = (take (length p) s = p)"

text \<open>
  \<open>s.split(sep)\<close> for a one-character separator: a cut at every occurrence, empty pieces
  kept, so the result has one piece more than there are separators.
\<close>

fun split :: "char \<Rightarrow> string \<Rightarrow> string list" where
  "split sep [] = [[]]"
| "split sep (c # cs) =
     (if c = sep then [] # split sep cs
      else (case split sep cs of w # ws \<Rightarrow> (c # w) # ws | [] \<Rightarrow> [[c]]))"

text \<open>\<open>xs[i]\<close> for a non-negative literal index.\<close>

definition getitem :: "'a list \<Rightarrow> nat \<Rightarrow> py_error + 'a" where
  "getitem xs i = (if i < length xs then Inr (xs ! i) else Inl IndexError)"


section \<open>pydantic-models.py: patterns and validators\<close>

subsection \<open>Python strings\<close>

text \<open>
  A \<open>str\<close> is a sequence of Unicode code points; \<open>len\<close> counts them. \<open>cp\<close> is the code
  point of a character of a literal and \<open>str_of\<close> the \<open>str\<close> of a literal.
\<close>

type_synonym str = "nat list"

definition cp :: "char \<Rightarrow> nat" where
  "cp c = of_char c"

definition str_of :: "string \<Rightarrow> str" where
  "str_of s = map cp s"

text \<open>
  What the patterns and \<open>slug_generator\<close> ask of a code point depends, outside ASCII, on
  the Unicode character database of the interpreter that runs the file. The database is
  a parameter of the model: \<open>decimal\<close> holds of the decimal digits (category Nd, what
  \<open>\d\<close> matches in a \<open>str\<close> pattern), \<open>alnum\<close> is \<open>str.isalnum()\<close> and \<open>whitespace\<close> is
  \<open>str.isspace()\<close> of a one-character string, \<open>lowercase\<close> is \<open>str.lower()\<close>, which is
  defined on whole strings because it looks at the neighbours of some letters. Only
  the entries of code points from 128 on are read: the ASCII part, which is the same in
  every version of the database, is written out in the definitions below.
\<close>

record unicode_db =
  decimal :: "nat \<Rightarrow> bool"
  alnum :: "nat \<Rightarrow> bool"
  whitespace :: "nat \<Rightarrow> bool"
  lowercase :: "str \<Rightarrow> str"

text \<open>
  The classes of a \<open>str\<close> pattern compiled without flags: \<open>\d\<close> is a decimal digit,
  \<open>\w\<close> is what \<open>str.isalnum()\<close> accepts or the underscore, \<open>\s\<close> is what
  \<open>str.isspace()\<close> accepts.
\<close>

definition is_digit :: "unicode_db \<Rightarrow> nat \<Rightarrow> bool" where
  "is_digit U c = (if c < 128 then cp CHR ''0'' \<le> c \<and> c \<le> cp CHR ''9'' else decimal U c)"

definition is_word :: "unicode_db \<Rightarrow> nat \<Rightarrow> bool" where
  "is_word U c =
     (if c < 128
      then (cp CHR ''0'' \<le> c \<and> c \<le> cp CHR ''9'') \<or> (cp CHR ''A'' \<le> c \<and> c \<le> cp CHR ''Z'') \<or>
           (cp CHR ''a'' \<le> c \<and> c \<le> cp CHR ''z'') \<or> c = cp CHR ''_''
      else alnum U c)"

definition is_space :: "unicode_db \<Rightarrow> nat \<Rightarrow> bool" where
  "is_space U c =
     (if c < 128 then (0x09 \<le> c \<and> c \<le> 0x0D) \<or> (0x1C \<le> c \<and> c \<le> 0x20)
      else whitespace U c)"

text \<open>\<open>s.lower()\<close>: on an ASCII string the letters \<open>A-Z\<close> move up by 32.\<close>

definition ascii_lower :: "nat \<Rightarrow> nat" where
  "ascii_lower c = (if cp CHR ''A'' \<le> c \<and> c \<le> cp CHR ''Z'' then c + 32 else c)"

definition str_lower :: "unicode_db \<Rightarrow> str \<Rightarrow> str" where
  "str_lower U s = (if list_all (\<lambda>c. c < 128) s then map ascii_lower s else lowercase U s)"

text \<open>
  A fragment of the database for examples: the entries of U+00A0 (no-break space:
  whitespace), U+00E9 (\<open>e\<close> with acute: a lowercase letter) and U+0660 to U+0669 (the
  ARABIC-INDIC digits: decimal, alphanumeric), and \<open>lower()\<close> for strings whose
  characters from 128 on are their own lowercase, as these are.
\<close>

definition unicode_sample :: unicode_db where
  "unicode_sample =
     \<lparr>decimal = (\<lambda>c. 0x660 \<le> c \<and> c \<le> 0x669),
      alnum = (\<lambda>c. c = 0xE9 \<or> (0x660 \<le> c \<and> c \<le> 0x669)),
      whitespace = (\<lambda>c. c = 0xA0),
      lowercase = map ascii_lower\<rparr>"

subsection \<open>Regular expressions of the re module\<close>

text \<open>
  The patterns of the file use anchors, the dot, character sets, concatenation, the
  greedy repetitions \<open>*\<close>, \<open>+\<close> and \<open>{m,n}\<close>, and the lookahead \<open>(?=...)\<close>. An item of a
  set is a character, a range or one of the classes \<open>\d\<close>, \<open>\w\<close>, \<open>\s\<close>; a class outside a
  set is the set of that one item, and a group \<open>(?:...)\<close> is its content.
\<close>

datatype set_item = Ch nat | Range nat nat | Digit | Word | Space

datatype regex =
    Bol
  | Eol
  | Dot
  | OneOf "set_item list"
  | NoneOf "set_item list"
  | Cat "regex list"
  | Star regex
  | Plus regex
  | Rep regex nat nat
  | Look regex

fun item_matches :: "unicode_db \<Rightarrow> set_item \<Rightarrow> nat \<Rightarrow> bool" where
  "item_matches U (Ch x) c = (c = x)"
| "item_matches U (Range lo hi) c = (lo \<le> c \<and> c \<le> hi)"
| "item_matches U Digit c = is_digit U c"
| "item_matches U Word c = is_word U c"
| "item_matches U Space c = is_space U c"

definition in_items :: "unicode_db \<Rightarrow> set_item list \<Rightarrow> nat \<Rightarrow> bool" where
  "in_items U items c = list_ex (\<lambda>i. item_matches U i c) items"

text \<open>
  Matching is by backtracking. \<open>ends U n r s\<close> lists, in the order in which the matcher
  tries them, the rests of the subject that can remain after \<open>r\<close> has matched at the front
  of the rest \<open>s\<close>; \<open>n\<close> is the length of the whole subject, so the matcher is at the
  start when \<open>length s = n\<close>. The repetitions are greedy: more iterations are tried
  first. An iteration of \<open>*\<close> or \<open>+\<close> that consumes nothing is not repeated. The newline
  is the code point 10: the dot matches every other code point, and \<open>$\<close> matches at the
  end of the subject and before a newline that ends it.
\<close>

definition newline :: nat where
  "newline = 0x0A"

definition one :: "(nat \<Rightarrow> bool) \<Rightarrow> str \<Rightarrow> str list" where
  "one P s = (case s of [] \<Rightarrow> [] | c # cs \<Rightarrow> if P c then [cs] else [])"

fun star :: "(str \<Rightarrow> str list) \<Rightarrow> nat \<Rightarrow> str \<Rightarrow> str list" where
  "star f 0 s = [s]"
| "star f (Suc k) s =
     concat (map (star f k) (filter (\<lambda>s'. length s' < length s) (f s))) @ [s]"

fun rep :: "(str \<Rightarrow> str list) \<Rightarrow> nat \<Rightarrow> nat \<Rightarrow> str \<Rightarrow> str list" where
  "rep f lo 0 s = (if lo = 0 then [s] else [])"
| "rep f lo (Suc hi) s =
     concat (map (rep f (lo - 1) hi) (f s)) @ (if lo = 0 then [s] else [])"

primrec ends :: "unicode_db \<Rightarrow> nat \<Rightarrow> regex \<Rightarrow> str \<Rightarrow> str list" where
  "ends U n Bol s = (if length s = n then [s] else [])"
| "ends U n Eol s = (if s = [] \<or> s = [newline] then [s] else [])"
| "ends U n Dot s = one (\<lambda>c. c \<noteq> newline) s"
| "ends U n (OneOf items) s = one (in_items U items) s"
| "ends U n (NoneOf items) s = one (\<lambda>c. \<not> in_items U items c) s"
| "ends U n (Cat rs) s = fold (\<lambda>f ss. concat (map f ss)) (map (ends U n) rs) [s]"
| "ends U n (Star r) s = star (ends U n r) (length s) s"
| "ends U n (Plus r) s = concat (map (\<lambda>s'. star (ends U n r) (length s') s') (ends U n r s))"
| "ends U n (Rep r lo hi) s = rep (ends U n r) lo hi s"
| "ends U n (Look r) s = (if ends U n r s = [] then [] else [s])"

text \<open>\<open>re.match(pattern, string)\<close> as a truth value: a match at the start of the string.\<close>

definition re_match :: "unicode_db \<Rightarrow> regex \<Rightarrow> str \<Rightarrow> bool" where
  "re_match U r s = (ends U (length s) r s \<noteq> [])"



definition PASSWORD_PATTERN :: regex where
  "PASSWORD_PATTERN =
     Cat [Bol,
          Look (Cat [Star Dot, OneOf [Range (cp CHR ''a'') (cp CHR ''z'')]]),
          Look (Cat [Star Dot, OneOf [Range (cp CHR ''A'') (cp CHR ''Z'')]]),
          Look (Cat [Star Dot, OneOf [Digit]]),
          Look (Cat [Star Dot, OneOf [Ch (cp CHR ''@''), Ch (cp CHR ''$''), Ch (cp CHR ''!''),
                                      Ch (cp CHR ''%''), Ch (cp CHR ''*''), Ch (cp CHR ''?''),
                                      Ch (cp CHR ''&'')]]),
          Rep (OneOf [Range (cp CHR ''A'') (cp CHR ''Z''), Range (cp CHR ''a'') (cp CHR ''z''),
                      Digit, Ch (cp CHR ''@''), Ch (cp CHR ''$''), Ch (cp CHR ''!''),
                      Ch (cp CHR ''%''), Ch (cp CHR ''*''), Ch (cp CHR ''?''),
                      Ch (cp CHR ''&'')]) 8 128,
          Eol]"

definition USERNAME_PATTERN :: regex where
  "USERNAME_PATTERN =
     Cat [Bol,
          Rep (OneOf [Range (cp CHR ''a'') (cp CHR ''z''), Range (cp CHR ''A'') (cp CHR ''Z''),
                      Range (cp CHR ''0'') (cp CHR ''9''), Ch (cp CHR ''_'')]) 3 30,
          Eol]"


definition validate_password :: "unicode_db \<Rightarrow> str \<Rightarrow> py_error + str" where
  "validate_password U password =
     (if \<not> re_match U PASSWORD_PATTERN password
      then Inl (ValueError (''Password must be 8-128 characters and contain at least one uppercase letter, '' @
                            ''one lowercase letter, one number, and one special character''))
      else Inr password)"

text \<open>
  The strength condition in the words of the error message: a lowercase letter is one
  of \<open>a-z\<close>, an uppercase letter one of \<open>A-Z\<close>, a digit is a decimal digit of Unicode
  (\<open>0-9\<close> among them) and a special character is one of \<open>@$!%*?&\<close>; and the condition
  that a string has no character outside the set of the pattern.
\<close>

definition strong_password :: "unicode_db \<Rightarrow> str \<Rightarrow> bool" where
  "strong_password U s =
     (8 \<le> length s \<and> length s \<le> 128 \<and>
      (\<exists>c \<in> set s. cp CHR ''a'' \<le> c \<and> c \<le> cp CHR ''z'') \<and>
      (\<exists>c \<in> set s. cp CHR ''A'' \<le> c \<and> c \<le> cp CHR ''Z'') \<and>
      (\<exists>c \<in> set s. is_digit U c) \<and>
      (\<exists>c \<in> set s. c \<in> set (str_of ''@$!%*?&'')))"

definition password_chars :: "unicode_db \<Rightarrow> str \<Rightarrow> bool" where
  "password_chars U s =
     list_all (\<lambda>c. (cp CHR ''A'' \<le> c \<and> c \<le> cp CHR ''Z'') \<or> (cp CHR ''a'' \<le> c \<and> c \<le> cp CHR ''z'') \<or>
                    is_digit U c \<or> c \<in> set (str_of ''@$!%*?&'')) s"



subsection \<open>The shape of a slug\<close>





section \<open>pydantic-models.py: model validation\<close>

text \<open>
  A model class is validated field by field, in declaration order. A field that is
  missing or fails its validators adds an error and is left out of \<open>values\<close>; a field
  that passes is stored in \<open>values\<close>, which later validators may read. Root validators
  run afterwards on \<open>values\<close>; the construction succeeds when no error was collected.
  The raw input is taken with each field already of its declared type, \<open>None\<close> standing
  for a field that is absent; \<open>values\<close> is the same record, \<open>None\<close> standing for a key
  that is not in the dictionary.
\<close>

type_synonym field_error = "string \<times> string"

definition validate_field ::
  "string \<Rightarrow> 'a option \<Rightarrow> ('a \<Rightarrow> 'v \<Rightarrow> py_error + 'b) \<Rightarrow> ('b \<Rightarrow> 'v \<Rightarrow> 'v) \<Rightarrow>
   'v \<times> field_error list \<Rightarrow> 'v \<times> field_error list" where
  "validate_field name raw validator store acc =
     (case raw of
        None \<Rightarrow> (fst acc, snd acc @ [(name, ''field required'')])
      | Some x \<Rightarrow>
          (case validator x (fst acc) of
             Inl (ValueError msg) \<Rightarrow> (fst acc, snd acc @ [(name, msg)])
           | Inl _ \<Rightarrow> (fst acc, snd acc @ [(name, ''error'')])
           | Inr v \<Rightarrow> (store v (fst acc), snd acc)))"

definition validate_root ::
  "('v \<Rightarrow> py_error + 'v) \<Rightarrow> 'v \<times> field_error list \<Rightarrow> 'v \<times> field_error list" where
  "validate_root validator acc =
     (case validator (fst acc) of
        Inl (ValueError msg) \<Rightarrow> (fst acc, snd acc @ [(''__root__'', msg)])
      | Inl _ \<Rightarrow> (fst acc, snd acc @ [(''__root__'', ''error'')])
      | Inr vs \<Rightarrow> (vs, snd acc))"

definition finish :: "'v \<times> field_error list \<Rightarrow> field_error list + 'v" where
  "finish acc = (if snd acc = [] then Inr (fst acc) else Inl (snd acc))"

text \<open>A field with no validator of its own: the typed value is stored as it is.\<close>

definition accept :: "'a \<Rightarrow> 'v \<Rightarrow> py_error + 'a" where
  "accept x vs = Inr x"

subsection \<open>Field constraints and the validators of the user models\<close>

text \<open>
  \<open>min_length\<close> and \<open>max_length\<close> of a string field, the \<open>regex\<close> of a \<open>constr\<close>, and two
  validators of one field run one after the other. \<open>EmailStr\<close> is checked by a library
  outside the file, so the models take its validator as an argument. The values of
  string fields are Python strings; the names of fields and the messages of errors are
  literals of the file and of the library.
\<close>

definition length_validator :: "nat \<Rightarrow> nat option \<Rightarrow> str \<Rightarrow> 'v \<Rightarrow> py_error + str" where
  "length_validator lo hi v vals =
     (if length v < lo
      then Inl (ValueError (''ensure this value has at least '' @ str_int (int lo) @ '' characters''))
      else if (case hi of None \<Rightarrow> False | Some h \<Rightarrow> h < length v)
      then Inl (ValueError ''ensure this value has at most the allowed number of characters'')
      else Inr v)"

definition regex_validator :: "unicode_db \<Rightarrow> regex \<Rightarrow> str \<Rightarrow> 'v \<Rightarrow> py_error + str" where
  "regex_validator U r v vals =
     (if re_match U r v then Inr v else Inl (ValueError ''string does not match regex''))"

definition and_then ::
  "('a \<Rightarrow> 'v \<Rightarrow> py_error + 'b) \<Rightarrow> ('b \<Rightarrow> 'v \<Rightarrow> py_error + 'c) \<Rightarrow> 'a \<Rightarrow> 'v \<Rightarrow> py_error + 'c" where
  "and_then f g x vals = (case f x vals of Inl e \<Rightarrow> Inl e | Inr y \<Rightarrow> g y vals)"

text \<open>An \<open>Optional\<close> field with the default \<open>None\<close>: what was given is stored.\<close>

definition validate_optional ::
  "'a option \<Rightarrow> ('a option \<Rightarrow> 'v \<Rightarrow> 'v) \<Rightarrow> 'v \<times> field_error list \<Rightarrow> 'v \<times> field_error list" where
  "validate_optional raw store acc = (store raw (fst acc), snd acc)"

text \<open>The steps of a model, run in the order of the list.\<close>

definition validate_model ::
  "('v \<times> field_error list \<Rightarrow> 'v \<times> field_error list) list \<Rightarrow> 'v \<Rightarrow> field_error list + 'v" where
  "validate_model steps init = finish (fold (\<lambda>step acc. step acc) steps (init, []))"

definition email_lowercase :: "unicode_db \<Rightarrow> str \<Rightarrow> 'v \<Rightarrow> py_error + str" where
  "email_lowercase U v vals = Inr (str_lower U v)"

definition username_lowercase :: "unicode_db \<Rightarrow> str \<Rightarrow> 'v \<Rightarrow> py_error + str" where
  "username_lowercase U v vals = Inr (str_lower U v)"

definition password_strength :: "unicode_db \<Rightarrow> str \<Rightarrow> 'v \<Rightarrow> py_error + str" where
  "password_strength U v vals = validate_password U v"

definition must_accept_terms :: "bool \<Rightarrow> 'v \<Rightarrow> py_error + bool" where
  "must_accept_terms v vals =
     (if \<not> v then Inl (ValueError ''You must accept the terms and conditions'') else Inr v)"

subsection \<open>UserRegistration\<close>

record UserRegistration =
  email :: "str option"
  username :: "str option"
  password :: "str option"
  confirm_password :: "str option"
  first_name :: "str option"
  last_name :: "str option"
  birth_date :: "int option"
  accept_terms :: "bool option"

definition UserRegistration_empty :: UserRegistration where
  "UserRegistration_empty =
     \<lparr>email = None, username = None, password = None, confirm_password = None,
      first_name = None, last_name = None, birth_date = None, accept_terms = None\<rparr>"

text \<open>
  The root validator: \<open>values.get('password')\<close> and \<open>values.get('confirm_password')\<close> are
  \<open>None\<close> for a field that is not in \<open>values\<close>.
\<close>

definition UserRegistration_passwords_match :: "UserRegistration \<Rightarrow> py_error + UserRegistration" where
  "UserRegistration_passwords_match vals =
     (if UserRegistration.password vals \<noteq> UserRegistration.confirm_password vals
      then Inl (ValueError ''Passwords do not match'')
      else Inr vals)"

definition UserRegistration_validate ::
  "unicode_db \<Rightarrow> (str \<Rightarrow> UserRegistration \<Rightarrow> py_error + str) \<Rightarrow> UserRegistration \<Rightarrow>
   field_error list + UserRegistration" where
  "UserRegistration_validate U EmailStr raw =
     validate_model
       [validate_field ''email'' (email raw) (and_then EmailStr (email_lowercase U))
          (\<lambda>v vs. vs\<lparr>email := Some v\<rparr>),
        validate_field ''username'' (username raw)
          (and_then (regex_validator U USERNAME_PATTERN) (username_lowercase U))
          (\<lambda>v vs. vs\<lparr>username := Some v\<rparr>),
        validate_field ''password'' (UserRegistration.password raw)
          (and_then (length_validator 8 (Some 128)) (password_strength U))
          (\<lambda>v vs. vs\<lparr>UserRegistration.password := Some v\<rparr>),
        validate_field ''confirm_password'' (UserRegistration.confirm_password raw) accept
          (\<lambda>v vs. vs\<lparr>UserRegistration.confirm_password := Some v\<rparr>),
        validate_field ''first_name'' (first_name raw) (length_validator 1 (Some 50))
          (\<lambda>v vs. vs\<lparr>first_name := Some v\<rparr>),
        validate_field ''last_name'' (last_name raw) (length_validator 1 (Some 50))
          (\<lambda>v vs. vs\<lparr>last_name := Some v\<rparr>),
        validate_optional (birth_date raw) (\<lambda>v vs. vs\<lparr>birth_date := v\<rparr>),
        validate_field ''accept_terms'' (accept_terms raw) must_accept_terms
          (\<lambda>v vs. vs\<lparr>accept_terms := Some v\<rparr>),
        validate_root UserRegistration_passwords_match]
       UserRegistration_empty"

subsection \<open>PasswordChange\<close>

record PasswordChange =
  current_password :: "str option"
  new_password :: "str option"
  confirm_password :: "str option"

definition PasswordChange_empty :: PasswordChange where
  "PasswordChange_empty =
     \<lparr>current_password = None, new_password = None, confirm_password = None\<rparr>"

definition PasswordChange_passwords_match :: "PasswordChange \<Rightarrow> py_error + PasswordChange" where
  "PasswordChange_passwords_match vals =
     (if new_password vals \<noteq> PasswordChange.confirm_password vals
      then Inl (ValueError ''Passwords do not match'')
      else if new_password vals = current_password vals
      then Inl (ValueError ''New password must be different from current password'')
      else Inr vals)"

definition PasswordChange_validate ::
  "unicode_db \<Rightarrow> PasswordChange \<Rightarrow> field_error list + PasswordChange" where
  "PasswordChange_validate U raw =
     validate_model
       [validate_field ''current_password'' (current_password raw) (length_validator 1 None)
          (\<lambda>v vs. vs\<lparr>current_password := Some v\<rparr>),
        validate_field ''new_password'' (new_password raw)
          (and_then (length_validator 8 (Some 128)) (password_strength U))
          (\<lambda>v vs. vs\<lparr>new_password := Some v\<rparr>),
        validate_field ''confirm_password'' (PasswordChange.confirm_password raw) accept
          (\<lambda>v vs. vs\<lparr>PasswordChange.confirm_password := Some v\<rparr>),
        validate_root PasswordChange_passwords_match]
       PasswordChange_empty"

subsection \<open>PasswordReset\<close>

record PasswordReset =
  token :: "str option"
  password :: "str option"
  confirm_password :: "str option"

definition PasswordReset_empty :: PasswordReset where
  "PasswordReset_empty = \<lparr>token = None, password = None, confirm_password = None\<rparr>"

definition PasswordReset_passwords_match :: "PasswordReset \<Rightarrow> py_error + PasswordReset" where
  "PasswordReset_passwords_match vals =
     (if PasswordReset.password vals \<noteq> PasswordReset.confirm_password vals
      then Inl (ValueError ''Passwords do not match'')
      else Inr vals)"

definition PasswordReset_validate ::
  "unicode_db \<Rightarrow> PasswordReset \<Rightarrow> field_error list + PasswordReset" where
  "PasswordReset_validate U raw =
     validate_model
       [validate_field ''token'' (token raw) (length_validator 1 None)
          (\<lambda>v vs. vs\<lparr>token := Some v\<rparr>),
        validate_field ''password'' (PasswordReset.password raw)
          (and_then (length_validator 8 (Some 128)) (password_strength U))
          (\<lambda>v vs. vs\<lparr>PasswordReset.password := Some v\<rparr>),
        validate_field ''confirm_password'' (PasswordReset.confirm_password raw) accept
          (\<lambda>v vs. vs\<lparr>PasswordReset.confirm_password := Some v\<rparr>),
        validate_root PasswordReset_passwords_match]
       PasswordReset_empty"

subsection \<open>PaginatedResponse\<close>

record PaginatedResponse =
  data :: "py_value list option"
  total :: "int option"
  page :: "int option"
  limit :: "int option"
  pages :: "int option"

definition PaginatedResponse_empty :: PaginatedResponse where
  "PaginatedResponse_empty =
     \<lparr>data = None, total = None, page = None, limit = None, pages = None\<rparr>"

text \<open>
  \<open>calculate_pages(cls, v, values)\<close>: \<open>values.get('total', 0)\<close>,
  \<open>values.get('limit', 20)\<close>, then the conditional expression. The division is only
  evaluated for a positive \<open>limit\<close>, so it cannot raise.
\<close>

definition calculate_pages :: "int \<Rightarrow> PaginatedResponse \<Rightarrow> py_error + int" where
  "calculate_pages v vals =
     (let t = (case total vals of None \<Rightarrow> 0 | Some x \<Rightarrow> x);
          l = (case limit vals of None \<Rightarrow> 20 | Some x \<Rightarrow> x)
      in Inr (if l > 0 then (t + l - 1) div l else 0))"

definition PaginatedResponse_validate ::
  "PaginatedResponse \<Rightarrow> field_error list + PaginatedResponse" where
  "PaginatedResponse_validate raw =
     finish
      (validate_field ''pages'' (pages raw) calculate_pages (\<lambda>v vs. vs\<lparr>pages := Some v\<rparr>)
      (validate_field ''limit'' (limit raw) accept (\<lambda>v vs. vs\<lparr>limit := Some v\<rparr>)
      (validate_field ''page'' (page raw) accept (\<lambda>v vs. vs\<lparr>page := Some v\<rparr>)
      (validate_field ''total'' (total raw) accept (\<lambda>v vs. vs\<lparr>total := Some v\<rparr>)
      (validate_field ''data'' (data raw) accept (\<lambda>v vs. vs\<lparr>data := Some v\<rparr>)
        (PaginatedResponse_empty, []))))))"

subsection \<open>Error formatting: format_validation_error and validation_exception_handler\<close>

text \<open>
  An entry of \<open>exc.errors()\<close>: the location (a tuple of field names and list indices),
  the message and the error type.
\<close>

datatype loc_item = LocStr string | LocInt int

record error_dict =
  loc :: "loc_item list"
  msg :: string
  type :: string

text \<open>\<open>str(loc)\<close> for an item of a location.\<close>

fun str_loc :: "loc_item \<Rightarrow> string" where
  "str_loc (LocStr s) = s"
| "str_loc (LocInt i) = str_int i"

record ErrorDetail =
  field :: string
  message :: string

record ErrorResponse =
  error :: string
  details :: "ErrorDetail list option"

text \<open>
  pydantic-models.py, \<open>format_validation_error\<close>: the loop appends one \<open>ErrorDetail\<close>
  for each entry of \<open>exc.errors()\<close>, in order.
\<close>

fun format_details :: "error_dict list \<Rightarrow> ErrorDetail list \<Rightarrow> ErrorDetail list" where
  "format_details [] ds = ds"
| "format_details (e # es) ds =
     format_details es
       (ds @ [\<lparr>field = join ''.'' (map str_loc (loc e)), message = msg e\<rparr>])"

definition format_validation_error :: "error_dict list \<Rightarrow> ErrorResponse" where
  "format_validation_error exc_errors =
     \<lparr>error = ''Validation failed'', details = Some (format_details exc_errors [])\<rparr>"

text \<open>\<open>content[key]\<close> of a dictionary, for reading a response body.\<close>

fun dict_get :: "py_value \<Rightarrow> string \<Rightarrow> py_value option" where
  "dict_get (PDict kvs) k = map_of kvs k"
| "dict_get _ k = None"


section \<open>endpoint-examples.py: list_users\<close>

text \<open>
  The \<open>pages\<close> argument \<open>list_users\<close> passes to its own \<open>PaginatedResponse\<close>:
  \<open>(total + limit - 1) // limit\<close>. Python's \<open>//\<close> rounds towards minus infinity, as
  \<open>div\<close> on \<open>int\<close> does, and raises on a zero divisor.
\<close>

definition list_users_pages :: "int \<Rightarrow> int \<Rightarrow> py_error + int" where
  "list_users_pages t l = (if l = 0 then Inl ZeroDivisionError else Inr ((t + l - 1) div l))"

section \<open>middleware-examples.py\<close>

subsection \<open>Requests, responses, header lists\<close>

text \<open>
  What the middleware reads of a request: \<open>request.url.path\<close>, the host of
  \<open>request.client\<close> (\<open>None\<close> when there is no client), the header list and
  \<open>request.state.user_id\<close>. Header lists are the framework's raw lists of (name, value)
  pairs, names in lower case; a lookup or an assignment lower-cases the name it is
  given and compares it with the stored names.
\<close>

record request =
  path :: string
  client :: "string option"
  headers :: "(string \<times> string) list"
  user_id :: "int option"

record 'b response =
  status_code :: int
  body :: 'b
  raw_headers :: "(string \<times> string) list"

text \<open>\<open>request.headers.get(key)\<close>: the value of the first entry with that name.\<close>

definition Headers_get :: "(string \<times> string) list \<Rightarrow> string \<Rightarrow> string option" where
  "Headers_get hs key = map_of hs (lower key)"

text \<open>
  \<open>response.headers[key] = value\<close>: the first entry with that name takes the value and
  the later entries with that name are deleted; without such an entry one is appended.
\<close>

fun replace_first :: "string \<Rightarrow> string \<Rightarrow> (string \<times> string) list \<Rightarrow> (string \<times> string) list" where
  "replace_first k v [] = []"
| "replace_first k v (h # hs) =
     (if fst h = k then (k, v) # filter (\<lambda>h'. fst h' \<noteq> k) hs else h # replace_first k v hs)"

definition MutableHeaders_setitem ::
  "(string \<times> string) list \<Rightarrow> string \<Rightarrow> string \<Rightarrow> (string \<times> string) list" where
  "MutableHeaders_setitem hs key v =
     (if lower key \<in> fst ` set hs then replace_first (lower key) v hs
      else hs @ [(lower key, v)])"

definition set_header :: "'b response \<Rightarrow> string \<Rightarrow> string \<Rightarrow> 'b response" where
  "set_header r key v = r\<lparr>raw_headers := MutableHeaders_setitem (raw_headers r) key v\<rparr>"

text \<open>
  \<open>JSONResponse(status_code=..., content=..., headers=...)\<close>. The body is the content
  before rendering; the entity headers the framework derives from the rendered body
  (content-length, content-type) are left out of the list.
\<close>

definition JSONResponse ::
  "int \<Rightarrow> py_value \<Rightarrow> (string \<times> string) list \<Rightarrow> py_value response" where
  "JSONResponse sc c hs =
     \<lparr>status_code = sc, body = c, raw_headers = map (\<lambda>h. (lower (fst h), snd h)) hs\<rparr>"

text \<open>
  What a \<open>dispatch\<close> does with a request: it returns the awaited \<open>call_next\<close> on a
  request (so whatever the inner handler returns or raises), returns a response of its
  own, or raises.
\<close>

datatype dispatched = CallNext request | Return "py_value response" | Raise py_error

subsection \<open>RateLimitMiddleware\<close>

text \<open>
  A \<open>datetime\<close> is a count of microseconds, the resolution of the type;
  \<open>timedelta(minutes=1)\<close> is 60000000 of them. The reading of \<open>datetime.utcnow()\<close> is an
  argument of \<open>dispatch\<close>.
\<close>

type_synonym datetime = int

definition minute :: int where
  "minute = 60000000"

record RateLimitMiddleware =
  requests_per_minute :: int
  requests :: "string \<rightharpoonup> datetime list"

definition RateLimitMiddleware_init :: "int \<Rightarrow> RateLimitMiddleware" where
  "RateLimitMiddleware_init rpm = \<lparr>requests_per_minute = rpm, requests = Map.empty\<rparr>"

text \<open>Reading \<open>self.requests[client_id]\<close> of the \<open>defaultdict(list)\<close>.\<close>

definition defaultdict_get :: "(string \<rightharpoonup> datetime list) \<Rightarrow> string \<Rightarrow> datetime list" where
  "defaultdict_get d k = (case d k of None \<Rightarrow> [] | Some v \<Rightarrow> v)"

definition client_id :: "request \<Rightarrow> string" where
  "client_id request = (case client request of Some host \<Rightarrow> host | None \<Rightarrow> ''unknown'')"

definition rate_limit_body :: "int \<Rightarrow> py_value" where
  "rate_limit_body rpm =
     PDict [(''error'', PStr ''Rate limit exceeded''),
            (''detail'', PStr (''Maximum '' @ str_int rpm @ '' requests per minute''))]"

definition RateLimitMiddleware_dispatch ::
  "RateLimitMiddleware \<Rightarrow> datetime \<Rightarrow> request \<Rightarrow> dispatched \<times> RateLimitMiddleware" where
  "RateLimitMiddleware_dispatch self now request =
     (if path request = ''/health'' then (CallNext request, self)
      else
        let minute_ago = now - minute;
            trimmed = filter (\<lambda>req_time. req_time > minute_ago)
                        (defaultdict_get (requests self) (client_id request));
            self1 = self\<lparr>requests := (requests self)(client_id request \<mapsto> trimmed)\<rparr>
        in if int (length trimmed) \<ge> requests_per_minute self1
           then (Return (JSONResponse 429 (rate_limit_body (requests_per_minute self1)) []), self1)
           else (CallNext request,
                 self1\<lparr>requests := (requests self1)(client_id request \<mapsto> trimmed @ [now])\<rparr>))"

text \<open>
  Sequential processing: the requests are dispatched one after the other, each with the
  clock reading of its own call. \<open>run\<close> gives the middleware after them, \<open>forwarded\<close>
  the requests that went on to the inner handler, with their readings.
\<close>

fun run :: "RateLimitMiddleware \<Rightarrow> (datetime \<times> request) list \<Rightarrow> RateLimitMiddleware" where
  "run self [] = self"
| "run self (e # es) = run (snd (RateLimitMiddleware_dispatch self (fst e) (snd e))) es"




text \<open>
  The list the comprehension of \<open>dispatch\<close> stores for the client of a request, and the
  bound on the stored lists that \<open>dispatch\<close> keeps.
\<close>

definition trimmed :: "RateLimitMiddleware \<Rightarrow> datetime \<Rightarrow> request \<Rightarrow> datetime list" where
  "trimmed self now request =
     filter (\<lambda>req_time. req_time > now - minute)
       (defaultdict_get (requests self) (client_id request))"

definition bounded :: "RateLimitMiddleware \<Rightarrow> bool" where
  "bounded self =
     (\<forall>c. int (length (defaultdict_get (requests self) c)) \<le> max 0 (requests_per_minute self))"

subsection \<open>AuthenticationMiddleware\<close>

definition public_paths :: "string list" where
  "public_paths =
     [''/health'', ''/docs'', ''/redoc'', ''/openapi.json'', ''/auth/login'', ''/auth/register'']"

definition unauthorized :: "string \<Rightarrow> dispatched" where
  "unauthorized m =
     Return (JSONResponse 401 (PDict [(''error'', PStr m)]) [(''WWW-Authenticate'', ''Bearer'')])"

text \<open>
  \<open>verify_token\<close> decodes the token with a library and a secret that are not part of
  the file, so it is an argument: it returns a user id or raises, and \<open>dispatch\<close>
  catches whatever it raises.
\<close>

definition AuthenticationMiddleware_dispatch ::
  "(string \<Rightarrow> 'e + int) \<Rightarrow> request \<Rightarrow> dispatched" where
  "AuthenticationMiddleware_dispatch verify_token request =
     (if list_ex (\<lambda>p. startswith (path request) p) public_paths then CallNext request
      else
        (case Headers_get (headers request) ''Authorization'' of
           None \<Rightarrow> unauthorized ''Authentication required''
         | Some auth_header \<Rightarrow>
             if auth_header = [] \<or> \<not> startswith auth_header ''Bearer ''
             then unauthorized ''Authentication required''
             else
               (case getitem (split CHR '' '' auth_header) 1 of
                  Inl err \<Rightarrow> Raise err
                | Inr tok \<Rightarrow>
                    (case verify_token tok of
                       Inl e \<Rightarrow> unauthorized ''Invalid or expired token''
                     | Inr uid \<Rightarrow> CallNext (request\<lparr>user_id := Some uid\<rparr>)))))"

subsection \<open>SecurityHeadersMiddleware\<close>

definition security_headers :: "(string \<times> string) list" where
  "security_headers =
     [(''X-Content-Type-Options'', ''nosniff''),
      (''X-Frame-Options'', ''DENY''),
      (''X-XSS-Protection'', ''1; mode=block''),
      (''Strict-Transport-Security'', ''max-age=31536000; includeSubDomains''),
      (''Referrer-Policy'', ''strict-origin-when-cross-origin'')]"

text \<open>
  The inner handler is an argument; it returns a response or raises, and what it raises
  passes through \<open>dispatch\<close>. The five assignments are made in the order of the source.
\<close>

definition SecurityHeadersMiddleware_dispatch ::
  "(request \<Rightarrow> 'e + 'b response) \<Rightarrow> request \<Rightarrow> 'e + 'b response" where
  "SecurityHeadersMiddleware_dispatch call_next request =
     (case call_next request of
        Inl e \<Rightarrow> Inl e
      | Inr response \<Rightarrow>
          Inr (set_header
                (set_header
                  (set_header
                    (set_header
                      (set_header response ''X-Content-Type-Options'' ''nosniff'')
                      ''X-Frame-Options'' ''DENY'')
                    ''X-XSS-Protection'' ''1; mode=block'')
                  ''Strict-Transport-Security'' ''max-age=31536000; includeSubDomains'')
                ''Referrer-Policy'' ''strict-origin-when-cross-origin''))"

subsection \<open>validation_exception_handler\<close>

text \<open>
  The handler registered for request validation errors. The loop appends one dictionary
  for each entry of \<open>exc.errors()\<close>; \<open>timestamp\<close> is the text
  \<open>datetime.utcnow().isoformat()\<close> gives at the call.
\<close>

fun handler_errors :: "error_dict list \<Rightarrow> py_value list \<Rightarrow> py_value list" where
  "handler_errors [] errs = errs"
| "handler_errors (e # es) errs =
     handler_errors es
       (errs @ [PDict [(''field'', PStr (join ''.'' (map str_loc (loc e)))),
                         (''message'', PStr (msg e)),
                         (''type'', PStr (type e))]])"

definition validation_exception_handler ::
  "request \<Rightarrow> error_dict list \<Rightarrow> string \<Rightarrow> py_value response" where
  "validation_exception_handler request exc_errors timestamp =
     JSONResponse 400
       (PDict [(''error'', PStr ''Validation failed''),
               (''details'', PList (handler_errors exc_errors [])),
               (''timestamp'', PStr timestamp)])
       []"


section \<open>Properties\<close>

subsection \<open>Matching: single characters, repetition, concatenation\<close>

lemma set_one: "set (one P s) = (case s of [] \<Rightarrow> {} | c # cs \<Rightarrow> if P c then {cs} else {})"
  by (simp add: one_def split: list.splits)

lemma set_star_one:
  "set (star (one P) k s) = {drop j s | j. j \<le> k \<and> j \<le> length (takeWhile P s)}"
proof (induction k arbitrary: s)
  case 0
  then show ?case by auto
next
  case (Suc k)
  show ?case
  proof (cases s)
    case Nil
    then show ?thesis by (auto simp: one_def)
  next
    case (Cons c cs)
    show ?thesis
    proof (cases "P c")
      case True
      have "{drop j (c # cs) | j. j \<le> Suc k \<and> j \<le> Suc (length (takeWhile P cs))} =
            insert (c # cs) {drop j cs | j. j \<le> k \<and> j \<le> length (takeWhile P cs)}"
        (is "?A = ?B")
      proof
        show "?A \<subseteq> ?B"
        proof
          fix x assume "x \<in> ?A"
          then obtain j where j: "x = drop j (c # cs)" "j \<le> Suc k" "j \<le> Suc (length (takeWhile P cs))"
            by blast
          then show "x \<in> ?B"
            by (cases j) auto
        qed
        show "?B \<subseteq> ?A"
        proof
          fix x assume "x \<in> ?B"
          then consider "x = c # cs" | j where "x = drop j cs" "j \<le> k" "j \<le> length (takeWhile P cs)"
            by blast
          then show "x \<in> ?A"
          proof cases
            case 1
            then have "x = drop 0 (c # cs)" by simp
            then show ?thesis by blast
          next
            case 2
            then have "x = drop (Suc j) (c # cs)" "Suc j \<le> Suc k" "Suc j \<le> Suc (length (takeWhile P cs))"
              by simp_all
            then show ?thesis by blast
          qed
        qed
      qed
      with True Cons Suc show ?thesis
        by (simp add: one_def)
    next
      case False
      with Cons show ?thesis by (auto simp: one_def)
    qed
  qed
qed

lemma set_rep_one:
  "set (rep (one P) lo hi s) = {drop j s | j. lo \<le> j \<and> j \<le> hi \<and> j \<le> length (takeWhile P s)}"
proof (induction hi arbitrary: lo s)
  case 0
  then show ?case by auto
next
  case (Suc hi)
  show ?case
  proof (cases s)
    case Nil
    then show ?thesis by (auto simp: one_def)
  next
    case (Cons c cs)
    show ?thesis
    proof (cases "P c")
      case True
      have "{drop j (c # cs) | j. lo \<le> j \<and> j \<le> Suc hi \<and> j \<le> Suc (length (takeWhile P cs))} =
            {drop j cs | j. lo - 1 \<le> j \<and> j \<le> hi \<and> j \<le> length (takeWhile P cs)} \<union>
            (if lo = 0 then {c # cs} else {})"
        (is "?A = ?B")
      proof
        show "?A \<subseteq> ?B"
        proof
          fix x assume "x \<in> ?A"
          then obtain j where j: "x = drop j (c # cs)" "lo \<le> j" "j \<le> Suc hi"
            "j \<le> Suc (length (takeWhile P cs))"
            by blast
          show "x \<in> ?B"
          proof (cases j)
            case 0
            with j show ?thesis by simp
          next
            case (Suc j')
            with j have "x = drop j' cs" "lo - 1 \<le> j'" "j' \<le> hi" "j' \<le> length (takeWhile P cs)"
              by auto
            then show ?thesis by blast
          qed
        qed
        show "?B \<subseteq> ?A"
        proof
          fix x assume "x \<in> ?B"
          then consider "lo = 0" "x = c # cs"
            | j where "x = drop j cs" "lo - 1 \<le> j" "j \<le> hi" "j \<le> length (takeWhile P cs)"
            by (auto split: if_splits)
          then show "x \<in> ?A"
          proof cases
            case 1
            then have "x = drop 0 (c # cs)" "lo \<le> 0" by simp_all
            then show ?thesis by blast
          next
            case 2
            then have "x = drop (Suc j) (c # cs)" "lo \<le> Suc j" "Suc j \<le> Suc hi"
              "Suc j \<le> Suc (length (takeWhile P cs))"
              by auto
            then show ?thesis by blast
          qed
        qed
      qed
      with True Cons Suc show ?thesis
        by (simp add: one_def)
    next
      case False
      with Cons show ?thesis by (auto simp: one_def)
    qed
  qed
qed


lemma concat_map_concat_map:
  "concat (map g (concat (map f ss))) = concat (map (\<lambda>s. concat (map g (f s))) ss)"
  by (induction ss) simp_all

lemma fold_concat_map:
  "fold (\<lambda>f ss. concat (map f ss)) fs ss =
   concat (map (\<lambda>s. fold (\<lambda>f ss. concat (map f ss)) fs [s]) ss)"
proof (induction fs arbitrary: ss)
  case Nil
  then show ?case by simp
next
  case (Cons f fs)
  let ?F = "\<lambda>s. fold (\<lambda>f ss. concat (map f ss)) fs [s]"
  have "fold (\<lambda>f ss. concat (map f ss)) (f # fs) ss =
        fold (\<lambda>f ss. concat (map f ss)) fs (concat (map f ss))"
    by simp
  also have "\<dots> = concat (map ?F (concat (map f ss)))"
    by (rule Cons.IH)
  also have "\<dots> = concat (map (\<lambda>s. concat (map ?F (f s))) ss)"
    by (rule concat_map_concat_map)
  also have "\<dots> = concat (map (\<lambda>s. fold (\<lambda>f ss. concat (map f ss)) fs (f s)) ss)"
    using Cons.IH [symmetric] by simp
  finally show ?case by simp
qed

lemma ends_Cat_Nil: "ends U n (Cat []) s = [s]"
  by simp

lemma ends_Cat_Cons: "ends U n (Cat (r # rs)) s = concat (map (ends U n (Cat rs)) (ends U n r s))"
proof -
  have cat: "fold (\<lambda>f ss. concat (map f ss)) (map (ends U n) rs) [x] = ends U n (Cat rs) x" for x
    by simp
  have "ends U n (Cat (r # rs)) s =
        fold (\<lambda>f ss. concat (map f ss)) (map (ends U n) rs) (ends U n r s)"
    by simp
  also have "\<dots> = concat (map (\<lambda>s. fold (\<lambda>f ss. concat (map f ss)) (map (ends U n) rs) [s]) (ends U n r s))"
    by (rule fold_concat_map)
  finally show ?thesis
    unfolding cat .
qed

lemma ends_Dot: "ends U n Dot = one (\<lambda>c. c \<noteq> newline)"
  by (rule ext) simp

lemma ends_OneOf: "ends U n (OneOf items) = one (in_items U items)"
  by (rule ext) simp

lemma ends_NoneOf: "ends U n (NoneOf items) = one (\<lambda>c. \<not> in_items U items c)"
  by (rule ext) simp


declare ends.simps(6) [simp del]
declare ends_Cat_Nil [simp] ends_Cat_Cons [simp] ends_Dot [simp] ends_OneOf [simp] ends_NoneOf [simp]

lemma lookahead_iff:
  "ends U n (Look (Cat [Star Dot, OneOf items])) s \<noteq> [] \<longleftrightarrow>
   (\<exists>j. j \<le> length (takeWhile (\<lambda>c. c \<noteq> newline) s) \<and> j < length s \<and> in_items U items (s ! j))"
proof -
  have "ends U n (Look (Cat [Star Dot, OneOf items])) s \<noteq> [] \<longleftrightarrow>
        (\<exists>x \<in> set (star (one (\<lambda>c. c \<noteq> newline)) (length s) s).
                      set (one (in_items U items) x) \<noteq> {})"
    by simp
  also have "\<dots> \<longleftrightarrow> (\<exists>j. j \<le> length (takeWhile (\<lambda>c. c \<noteq> newline) s) \<and>
                      set (one (in_items U items) (drop j s)) \<noteq> {})"
  proof -
    have "j \<le> length s" if "j \<le> length (takeWhile (\<lambda>c. c \<noteq> newline) s)" for j
      using that length_takeWhile_le [of "\<lambda>c. c \<noteq> newline" s] by linarith
    then show ?thesis
      unfolding set_star_one by blast
  qed
  also have "\<dots> \<longleftrightarrow> (\<exists>j. j \<le> length (takeWhile (\<lambda>c. c \<noteq> newline) s) \<and> j < length s \<and>
                      in_items U items (s ! j))"
  proof -
    have "set (one (in_items U items) (drop j s)) \<noteq> {} \<longleftrightarrow> j < length s \<and> in_items U items (s ! j)" for j
    proof (cases "j < length s")
      case True
      then have "drop j s = s ! j # drop (Suc j) s"
        by (simp add: Cons_nth_drop_Suc)
      with True show ?thesis by (simp add: set_one)
    next
      case False
      then show ?thesis by (simp add: set_one)
    qed
    then show ?thesis by simp
  qed
  finally show ?thesis .
qed

subsection \<open>The password pattern\<close>

lemma tail_iff:
  "ends U n (Cat [Rep (OneOf items) lo hi, Eol]) s \<noteq> [] \<longleftrightarrow>
   (\<exists>j. lo \<le> j \<and> j \<le> hi \<and> j \<le> length (takeWhile (in_items U items) s) \<and>
        (drop j s = [] \<or> drop j s = [newline]))"
proof -
  have "ends U n (Cat [Rep (OneOf items) lo hi, Eol]) s \<noteq> [] \<longleftrightarrow>
        (\<exists>x \<in> set (rep (one (in_items U items)) lo hi s). x = [] \<or> x = [newline])"
    by auto
  then show ?thesis
    unfolding set_rep_one by blast
qed

lemma ends_Cat_Look:
  "ends U n (Cat (Look r # rs)) s = (if ends U n (Look r) s \<noteq> [] then ends U n (Cat rs) s else [])"
  by simp

lemma ends_Cat_Bol:
  "ends U (length s) (Cat (Bol # rs)) s = ends U (length s) (Cat rs) s"
  by simp

lemma re_match_PASSWORD:
  "re_match U PASSWORD_PATTERN s \<longleftrightarrow>
     (\<exists>j. j \<le> length (takeWhile (\<lambda>c. c \<noteq> newline) s) \<and> j < length s \<and>
          in_items U [Range (cp CHR ''a'') (cp CHR ''z'')] (s ! j)) \<and>
     (\<exists>j. j \<le> length (takeWhile (\<lambda>c. c \<noteq> newline) s) \<and> j < length s \<and>
          in_items U [Range (cp CHR ''A'') (cp CHR ''Z'')] (s ! j)) \<and>
     (\<exists>j. j \<le> length (takeWhile (\<lambda>c. c \<noteq> newline) s) \<and> j < length s \<and>
          in_items U [Digit] (s ! j)) \<and>
     (\<exists>j. j \<le> length (takeWhile (\<lambda>c. c \<noteq> newline) s) \<and> j < length s \<and>
          in_items U [Ch (cp CHR ''@''), Ch (cp CHR ''$''), Ch (cp CHR ''!''), Ch (cp CHR ''%''),
                    Ch (cp CHR ''*''), Ch (cp CHR ''?''), Ch (cp CHR ''&'')] (s ! j)) \<and>
     (\<exists>j. 8 \<le> j \<and> j \<le> 128 \<and>
          j \<le> length (takeWhile (in_items U [Range (cp CHR ''A'') (cp CHR ''Z''), Range (cp CHR ''a'') (cp CHR ''z''), Digit,
                    Ch (cp CHR ''@''), Ch (cp CHR ''$''), Ch (cp CHR ''!''), Ch (cp CHR ''%''),
                    Ch (cp CHR ''*''), Ch (cp CHR ''?''), Ch (cp CHR ''&'')]) s) \<and>
          (drop j s = [] \<or> drop j s = [newline]))"
proof -
  let ?n = "length s"
  define L1 where "L1 \<longleftrightarrow> ends U ?n (Look (Cat [Star Dot, OneOf [Range (cp CHR ''a'') (cp CHR ''z'')]])) s \<noteq> []"
  define L2 where "L2 \<longleftrightarrow> ends U ?n (Look (Cat [Star Dot, OneOf [Range (cp CHR ''A'') (cp CHR ''Z'')]])) s \<noteq> []"
  define L3 where "L3 \<longleftrightarrow> ends U ?n (Look (Cat [Star Dot, OneOf [Digit]])) s \<noteq> []"
  define L4 where "L4 \<longleftrightarrow> ends U ?n (Look (Cat [Star Dot,
      OneOf [Ch (cp CHR ''@''), Ch (cp CHR ''$''), Ch (cp CHR ''!''), Ch (cp CHR ''%''),
             Ch (cp CHR ''*''), Ch (cp CHR ''?''), Ch (cp CHR ''&'')]])) s \<noteq> []"
  define T where "T = ends U ?n (Cat [Rep (OneOf [Range (cp CHR ''A'') (cp CHR ''Z''), Range (cp CHR ''a'') (cp CHR ''z''),
      Digit, Ch (cp CHR ''@''), Ch (cp CHR ''$''), Ch (cp CHR ''!''), Ch (cp CHR ''%''),
      Ch (cp CHR ''*''), Ch (cp CHR ''?''), Ch (cp CHR ''&'')]) 8 128, Eol]) s"
  have "ends U ?n PASSWORD_PATTERN s =
        (if L1 then if L2 then if L3 then if L4 then T else [] else [] else [] else [])"
    unfolding PASSWORD_PATTERN_def ends_Cat_Bol ends_Cat_Look L1_def L2_def L3_def L4_def T_def ..
  then have "re_match U PASSWORD_PATTERN s \<longleftrightarrow> L1 \<and> L2 \<and> L3 \<and> L4 \<and> T \<noteq> []"
    unfolding re_match_def by simp
  then show ?thesis
    unfolding L1_def L2_def L3_def L4_def T_def lookahead_iff tail_iff .
qed


lemma look_core:
  assumes "\<forall>c \<in> set core. c \<noteq> newline" and "rest = [] \<or> rest = [newline]"
    and "\<not> Q newline"
  shows "(\<exists>k. k \<le> length (takeWhile (\<lambda>c. c \<noteq> newline) (core @ rest)) \<and>
              k < length (core @ rest) \<and> Q ((core @ rest) ! k)) \<longleftrightarrow> (\<exists>c \<in> set core. Q c)"
proof
  assume "\<exists>k. k \<le> length (takeWhile (\<lambda>c. c \<noteq> newline) (core @ rest)) \<and>
              k < length (core @ rest) \<and> Q ((core @ rest) ! k)"
  then obtain k where k: "k < length (core @ rest)" "Q ((core @ rest) ! k)"
    by blast
  have "k < length core"
  proof (rule ccontr)
    assume "\<not> k < length core"
    with k(1) assms(2) have "rest = [newline]" "k = length core"
      by auto
    then have "(core @ rest) ! k = newline"
      by simp
    with k(2) assms(3) show False by simp
  qed
  then have "(core @ rest) ! k = core ! k" "core ! k \<in> set core"
    by (simp_all add: nth_append)
  with k(2) show "\<exists>c \<in> set core. Q c"
    by auto
next
  assume "\<exists>c \<in> set core. Q c"
  then obtain k where k: "k < length core" "Q (core ! k)"
    by (auto simp: in_set_conv_nth)
  have "takeWhile (\<lambda>c. c \<noteq> newline) (core @ rest) =
        core @ takeWhile (\<lambda>c. c \<noteq> newline) rest"
    using assms(1) by (simp add: takeWhile_append2)
  then have "k \<le> length (takeWhile (\<lambda>c. c \<noteq> newline) (core @ rest))"
    using k(1) by simp
  moreover have "k < length (core @ rest)" "Q ((core @ rest) ! k)"
    using k by (simp_all add: nth_append)
  ultimately show "\<exists>k. k \<le> length (takeWhile (\<lambda>c. c \<noteq> newline) (core @ rest)) \<and>
              k < length (core @ rest) \<and> Q ((core @ rest) ! k)"
    by blast
qed

lemma tail_core:
  "(\<exists>j. lo \<le> j \<and> j \<le> hi \<and> j \<le> length (takeWhile A s) \<and>
        (drop j s = [] \<or> drop j s = [newline])) \<longleftrightarrow>
   (\<exists>core rest. s = core @ rest \<and> (rest = [] \<or> rest = [newline]) \<and>
        lo \<le> length core \<and> length core \<le> hi \<and> (\<forall>c \<in> set core. A c))"
proof
  assume "\<exists>j. lo \<le> j \<and> j \<le> hi \<and> j \<le> length (takeWhile A s) \<and>
        (drop j s = [] \<or> drop j s = [newline])"
  then obtain j where j: "lo \<le> j" "j \<le> hi" "j \<le> length (takeWhile A s)"
    "drop j s = [] \<or> drop j s = [newline]"
    by blast
  have le: "length (takeWhile A s) \<le> length s"
    by (rule length_takeWhile_le)
  have "take j s = take j (takeWhile A s)"
    using j(3) by (metis takeWhile_eq_take take_take min.absorb1)
  then have "set (take j s) \<subseteq> set (takeWhile A s)"
    by (metis set_take_subset)
  then have all: "\<forall>c \<in> set (take j s). A c"
    by (auto dest: set_takeWhileD)
  have len: "length (take j s) = j"
    using j(3) le by simp
  have "s = take j s @ drop j s"
    by simp
  with j all len show "\<exists>core rest. s = core @ rest \<and> (rest = [] \<or> rest = [newline]) \<and>
        lo \<le> length core \<and> length core \<le> hi \<and> (\<forall>c \<in> set core. A c)"
    by metis
next
  assume "\<exists>core rest. s = core @ rest \<and> (rest = [] \<or> rest = [newline]) \<and>
        lo \<le> length core \<and> length core \<le> hi \<and> (\<forall>c \<in> set core. A c)"
  then obtain core rest where c: "s = core @ rest" "rest = [] \<or> rest = [newline]"
    "lo \<le> length core" "length core \<le> hi" "\<forall>c \<in> set core. A c"
    by blast
  have "takeWhile A s = core @ takeWhile A rest"
    using c(1,5) by (simp add: takeWhile_append2)
  then have "length core \<le> length (takeWhile A s)"
    by simp
  moreover have "drop (length core) s = rest"
    using c(1) by simp
  ultimately show "\<exists>j. lo \<le> j \<and> j \<le> hi \<and> j \<le> length (takeWhile A s) \<and>
        (drop j s = [] \<or> drop j s = [newline])"
    using c(2,3,4) by blast
qed

lemma in_items_simps:
  "in_items U [Range (cp CHR ''a'') (cp CHR ''z'')] c \<longleftrightarrow> cp CHR ''a'' \<le> c \<and> c \<le> cp CHR ''z''"
  "in_items U [Range (cp CHR ''A'') (cp CHR ''Z'')] c \<longleftrightarrow> cp CHR ''A'' \<le> c \<and> c \<le> cp CHR ''Z''"
  "in_items U [Digit] c \<longleftrightarrow> is_digit U c"
  "in_items U [Ch (cp CHR ''@''), Ch (cp CHR ''$''), Ch (cp CHR ''!''), Ch (cp CHR ''%''),
             Ch (cp CHR ''*''), Ch (cp CHR ''?''), Ch (cp CHR ''&'')] c \<longleftrightarrow> c \<in> set (str_of ''@$!%*?&'')"
  "in_items U [Range (cp CHR ''A'') (cp CHR ''Z''), Range (cp CHR ''a'') (cp CHR ''z''), Digit,
             Ch (cp CHR ''@''), Ch (cp CHR ''$''), Ch (cp CHR ''!''), Ch (cp CHR ''%''),
             Ch (cp CHR ''*''), Ch (cp CHR ''?''), Ch (cp CHR ''&'')] c \<longleftrightarrow>
     (cp CHR ''A'' \<le> c \<and> c \<le> cp CHR ''Z'') \<or> (cp CHR ''a'' \<le> c \<and> c \<le> cp CHR ''z'') \<or>
     is_digit U c \<or> c \<in> set (str_of ''@$!%*?&'')"
  by (simp_all add: in_items_def str_of_def)

lemma re_match_PASSWORD_iff:
  "re_match U PASSWORD_PATTERN s \<longleftrightarrow>
     (\<exists>core rest. s = core @ rest \<and> (rest = [] \<or> rest = [newline]) \<and>
        strong_password U core \<and> password_chars U core)"
proof -
  let ?A = "in_items U [Range (cp CHR ''A'') (cp CHR ''Z''), Range (cp CHR ''a'') (cp CHR ''z''), Digit,
             Ch (cp CHR ''@''), Ch (cp CHR ''$''), Ch (cp CHR ''!''), Ch (cp CHR ''%''),
             Ch (cp CHR ''*''), Ch (cp CHR ''?''), Ch (cp CHR ''&'')]"
  let ?Q1 = "in_items U [Range (cp CHR ''a'') (cp CHR ''z'')]"
  let ?Q2 = "in_items U [Range (cp CHR ''A'') (cp CHR ''Z'')]"
  let ?Q3 = "in_items U [Digit]"
  let ?Q4 = "in_items U [Ch (cp CHR ''@''), Ch (cp CHR ''$''), Ch (cp CHR ''!''), Ch (cp CHR ''%''),
             Ch (cp CHR ''*''), Ch (cp CHR ''?''), Ch (cp CHR ''&'')]"
  let ?look = "\<lambda>Q s. \<exists>j. j \<le> length (takeWhile (\<lambda>c. c \<noteq> newline) s) \<and> j < length s \<and> Q (s ! j)"
  have nl: "\<not> ?A newline" "\<not> ?Q1 newline" "\<not> ?Q2 newline" "\<not> ?Q3 newline" "\<not> ?Q4 newline"
    by (simp_all add: in_items_def is_digit_def newline_def cp_def)
  have pc: "password_chars U core \<longleftrightarrow> (\<forall>c \<in> set core. ?A c)" for core
    by (simp add: password_chars_def list_all_iff in_items_simps)
  have sp: "strong_password U core \<longleftrightarrow> 8 \<le> length core \<and> length core \<le> 128 \<and>
      (\<exists>c \<in> set core. ?Q1 c) \<and> (\<exists>c \<in> set core. ?Q2 c) \<and> (\<exists>c \<in> set core. ?Q3 c) \<and>
      (\<exists>c \<in> set core. ?Q4 c)" for core
    by (simp only: strong_password_def in_items_simps)
  have step: "?look ?Q1 s \<and> ?look ?Q2 s \<and> ?look ?Q3 s \<and> ?look ?Q4 s \<longleftrightarrow>
      (\<exists>c \<in> set core. ?Q1 c) \<and> (\<exists>c \<in> set core. ?Q2 c) \<and> (\<exists>c \<in> set core. ?Q3 c) \<and>
      (\<exists>c \<in> set core. ?Q4 c)"
    if "s = core @ rest" "rest = [] \<or> rest = [newline]" "\<forall>c \<in> set core. ?A c" for core rest
  proof -
    have nonl: "\<forall>c \<in> set core. c \<noteq> newline"
      using that(3) nl(1) by metis
    show ?thesis
      unfolding that(1)
      by (simp only: look_core [where Q = ?Q1, OF nonl that(2) nl(2)]
            look_core [where Q = ?Q2, OF nonl that(2) nl(3)]
            look_core [where Q = ?Q3, OF nonl that(2) nl(4)]
            look_core [where Q = ?Q4, OF nonl that(2) nl(5)])
  qed
  have "re_match U PASSWORD_PATTERN s \<longleftrightarrow>
        ?look ?Q1 s \<and> ?look ?Q2 s \<and> ?look ?Q3 s \<and> ?look ?Q4 s \<and>
        (\<exists>core rest. s = core @ rest \<and> (rest = [] \<or> rest = [newline]) \<and>
           8 \<le> length core \<and> length core \<le> 128 \<and> (\<forall>c \<in> set core. ?A c))"
    unfolding re_match_PASSWORD tail_core ..
  also have "\<dots> \<longleftrightarrow> (\<exists>core rest. s = core @ rest \<and> (rest = [] \<or> rest = [newline]) \<and>
        strong_password U core \<and> password_chars U core)"
  proof
    assume lhs: "?look ?Q1 s \<and> ?look ?Q2 s \<and> ?look ?Q3 s \<and> ?look ?Q4 s \<and>
        (\<exists>core rest. s = core @ rest \<and> (rest = [] \<or> rest = [newline]) \<and>
           8 \<le> length core \<and> length core \<le> 128 \<and> (\<forall>c \<in> set core. ?A c))"
    then obtain core rest where c: "s = core @ rest" "rest = [] \<or> rest = [newline]"
      "8 \<le> length core" "length core \<le> 128" "\<forall>c \<in> set core. ?A c"
      by blast
    from lhs have "?look ?Q1 s \<and> ?look ?Q2 s \<and> ?look ?Q3 s \<and> ?look ?Q4 s"
      by (elim conjE) (intro conjI)
    then have "(\<exists>c \<in> set core. ?Q1 c) \<and> (\<exists>c \<in> set core. ?Q2 c) \<and> (\<exists>c \<in> set core. ?Q3 c) \<and>
      (\<exists>c \<in> set core. ?Q4 c)"
      by (simp only: step [OF c(1,2,5)])
    with c(3,4) have "strong_password U core"
      by (simp only: sp)
    moreover have "password_chars U core"
      using c(5) by (simp only: pc)
    ultimately show "\<exists>core rest. s = core @ rest \<and> (rest = [] \<or> rest = [newline]) \<and>
        strong_password U core \<and> password_chars U core"
      using c(1,2) by blast
  next
    assume "\<exists>core rest. s = core @ rest \<and> (rest = [] \<or> rest = [newline]) \<and>
        strong_password U core \<and> password_chars U core"
    then obtain core rest where c: "s = core @ rest" "rest = [] \<or> rest = [newline]"
      "strong_password U core" "password_chars U core"
      by blast
    from c(4) have all: "\<forall>c \<in> set core. ?A c"
      by (simp only: pc)
    from c(3) have len: "8 \<le> length core" "length core \<le> 128"
      and ex: "(\<exists>c \<in> set core. ?Q1 c) \<and> (\<exists>c \<in> set core. ?Q2 c) \<and> (\<exists>c \<in> set core. ?Q3 c) \<and>
      (\<exists>c \<in> set core. ?Q4 c)"
      by (simp_all only: sp)
    from ex have "?look ?Q1 s \<and> ?look ?Q2 s \<and> ?look ?Q3 s \<and> ?look ?Q4 s"
      by (simp only: step [OF c(1,2) all])
    moreover have "\<exists>core rest. s = core @ rest \<and> (rest = [] \<or> rest = [newline]) \<and>
           8 \<le> length core \<and> length core \<le> 128 \<and> (\<forall>c \<in> set core. ?A c)"
      using c(1,2) len all by blast
    ultimately show "?look ?Q1 s \<and> ?look ?Q2 s \<and> ?look ?Q3 s \<and> ?look ?Q4 s \<and>
        (\<exists>core rest. s = core @ rest \<and> (rest = [] \<or> rest = [newline]) \<and>
           8 \<le> length core \<and> length core \<le> 128 \<and> (\<forall>c \<in> set core. ?A c))"
      by (elim conjE) (intro conjI)
  qed
  finally show ?thesis .
qed

lemma validate_password_iff:
  "validate_password U s = (if re_match U PASSWORD_PATTERN s then Inr s else
     Inl (ValueError (''Password must be 8-128 characters and contain at least one uppercase letter, '' @
                            ''one lowercase letter, one number, and one special character'')))"
  by (simp add: validate_password_def)

lemma no_trailing_newline:
  assumes "s = [] \<or> last s \<noteq> newline"
  shows "(\<exists>core rest. s = core @ rest \<and> (rest = [] \<or> rest = [newline]) \<and> P core) \<longleftrightarrow> P s"
proof
  assume "\<exists>core rest. s = core @ rest \<and> (rest = [] \<or> rest = [newline]) \<and> P core"
  then obtain core rest where c: "s = core @ rest" "rest = [] \<or> rest = [newline]" "P core"
    by blast
  have "rest = []"
  proof (rule ccontr)
    assume "rest \<noteq> []"
    with c(2) have "rest = [newline]" by simp
    with c(1) have "s \<noteq> []" "last s = newline" by simp_all
    with assms show False by simp
  qed
  with c show "P s" by simp
next
  assume "P s"
  then have "s = s @ [] \<and> ([] = [] \<or> [] = [newline]) \<and> P s" by simp
  then show "\<exists>core rest. s = core @ rest \<and> (rest = [] \<or> rest = [newline]) \<and> P core"
    by blast
qed


text \<open>
  C4, as the code has it. For a string that does not end in a newline,
  \<open>validate_password\<close> returns the string when it is 8 to 128 characters long, has a
  lowercase letter \<open>a-z\<close>, an uppercase letter \<open>A-Z\<close>, a decimal digit (of any script,
  as \<open>\d\<close> matches them) and one of \<open>@$!%*?&\<close>, and consists of such characters
  only; it raises \<open>ValueError\<close> for every other such string. This holds whatever the
  character database says of the code points from 128 on.
\<close>

theorem validate_password_spec:
  assumes "s = [] \<or> last s \<noteq> newline"
  shows "(strong_password U s \<and> password_chars U s \<longrightarrow> validate_password U s = Inr s) \<and>
         (\<not> (strong_password U s \<and> password_chars U s) \<longrightarrow>
            (\<exists>m. validate_password U s = Inl (ValueError m)))"
proof -
  have "re_match U PASSWORD_PATTERN s \<longleftrightarrow> strong_password U s \<and> password_chars U s"
    unfolding re_match_PASSWORD_iff
    using no_trailing_newline [OF assms, of "\<lambda>core. strong_password U core \<and> password_chars U core"]
    by simp
  then show ?thesis
    by (simp add: validate_password_iff)
qed

lemma str_of_simps:
  "str_of [] = []"
  "str_of (c # cs) = cp c # str_of cs"
  by (simp_all add: str_of_def)

lemma sample_simps:
  "decimal unicode_sample c \<longleftrightarrow> 0x660 \<le> c \<and> c \<le> 0x669"
  "alnum unicode_sample c \<longleftrightarrow> c = 0xE9 \<or> (0x660 \<le> c \<and> c \<le> 0x669)"
  "whitespace unicode_sample c \<longleftrightarrow> c = 0xA0"
  "lowercase unicode_sample = map ascii_lower"
  by (simp_all add: unicode_sample_def)

theorem validate_password_spec_witness:
  "last (str_of ''Abcdef1@'') \<noteq> newline \<and>
   validate_password unicode_sample (str_of ''Abcdef1@'') = Inr (str_of ''Abcdef1@'') \<and>
   last (str_of ''Abcdefg@'' @ [0x661]) \<noteq> newline \<and>
   validate_password unicode_sample (str_of ''Abcdefg@'' @ [0x661]) =
     Inr (str_of ''Abcdefg@'' @ [0x661]) \<and>
   last (str_of ''abcdefgh'') \<noteq> newline \<and>
   isl (validate_password unicode_sample (str_of ''abcdefgh''))"
proof -
  let ?U = unicode_sample
  have h1: "str_of ''Abcdef1@'' = [] \<or> last (str_of ''Abcdef1@'') \<noteq> newline"
    by (simp add: str_of_simps cp_def newline_def)
  have g1: "strong_password ?U (str_of ''Abcdef1@'') \<and> password_chars ?U (str_of ''Abcdef1@'')"
    by (simp add: strong_password_def password_chars_def is_digit_def str_of_simps cp_def)
  have h2: "str_of ''abcdefgh'' = [] \<or> last (str_of ''abcdefgh'') \<noteq> newline"
    by (simp add: str_of_simps cp_def newline_def)
  have g2: "\<not> (strong_password ?U (str_of ''abcdefgh'') \<and> password_chars ?U (str_of ''abcdefgh''))"
    by (simp add: strong_password_def is_digit_def str_of_simps cp_def)
  have h3: "str_of ''Abcdefg@'' @ [0x661] = [] \<or> last (str_of ''Abcdefg@'' @ [0x661]) \<noteq> newline"
    by (simp add: newline_def)
  have g3: "strong_password ?U (str_of ''Abcdefg@'' @ [0x661]) \<and>
            password_chars ?U (str_of ''Abcdefg@'' @ [0x661])"
    by (simp add: strong_password_def password_chars_def is_digit_def str_of_simps cp_def
          sample_simps)
  from validate_password_spec [OF h1, THEN conjunct1, THEN mp, OF g1]
  have c1: "validate_password ?U (str_of ''Abcdef1@'') = Inr (str_of ''Abcdef1@'')" .
  from validate_password_spec [OF h2, THEN conjunct2, THEN mp, OF g2]
  have c2: "isl (validate_password ?U (str_of ''abcdefgh''))"
    by auto
  from validate_password_spec [OF h3, THEN conjunct1, THEN mp, OF g3]
  have c3: "validate_password ?U (str_of ''Abcdefg@'' @ [0x661]) =
            Inr (str_of ''Abcdefg@'' @ [0x661])" .
  from h1 h2 h3 have l: "last (str_of ''Abcdef1@'') \<noteq> newline"
    "last (str_of ''abcdefgh'') \<noteq> newline"
    "last (str_of ''Abcdefg@'' @ [0x661]) \<noteq> newline"
    by (simp_all add: str_of_simps)
  show ?thesis
    by (intro conjI l c1 c2 c3)
qed

text \<open>
  The claim as stated fails on a string that meets its four conditions and its length
  bounds but holds a character outside the pattern's set, here a space: it is rejected.
\<close>

theorem validate_password_counterexample:
  "strong_password unicode_sample (str_of ''My Passw0rd!'') \<and>
   isl (validate_password unicode_sample (str_of ''My Passw0rd!''))"
proof -
  let ?U = unicode_sample
  let ?s = "str_of ''My Passw0rd!''"
  have "strong_password ?U ?s"
    by (simp add: strong_password_def is_digit_def str_of_simps cp_def)
  moreover have "\<not> password_chars ?U ?s"
    by (simp add: password_chars_def is_digit_def str_of_simps cp_def)
  moreover have "?s = [] \<or> last ?s \<noteq> newline"
    by (simp add: str_of_simps cp_def newline_def)
  ultimately have "\<not> re_match ?U PASSWORD_PATTERN ?s"
    unfolding re_match_PASSWORD_iff
    using no_trailing_newline [of ?s "\<lambda>core. strong_password ?U core \<and> password_chars ?U core"]
    by simp
  then have "isl (validate_password ?U ?s)"
    by (simp add: validate_password_iff)
  moreover have "strong_password ?U ?s"
    by (simp add: strong_password_def is_digit_def str_of_simps cp_def)
  ultimately show ?thesis by simp
qed

lemma validate_password_trailing_newline:
  "validate_password U (str_of ''Abcdef1@'' @ [newline]) = Inr (str_of ''Abcdef1@'' @ [newline])"
proof -
  have "strong_password U (str_of ''Abcdef1@'') \<and> password_chars U (str_of ''Abcdef1@'')"
    by (simp add: strong_password_def password_chars_def is_digit_def str_of_simps cp_def)
  then have "re_match U PASSWORD_PATTERN (str_of ''Abcdef1@'' @ [newline])"
    unfolding re_match_PASSWORD_iff by blast
  then show ?thesis
    by (simp add: validate_password_iff)
qed

subsection \<open>Pagination\<close>

lemma snd_validate_field_mono:
  "snd acc \<noteq> [] \<Longrightarrow> snd (validate_field name raw validator store acc) \<noteq> []"
  by (auto simp: validate_field_def split: option.splits sum.splits py_error.splits)

lemma ceiling_div_int:
  fixes t l :: int
  assumes "0 < l"
  shows "(t + l - 1) div l = \<lceil>real_of_int t / real_of_int l\<rceil>"
proof -
  define a where "a = t + l - 1"
  define z where "z = a div l"
  have eq: "a = l * z + a mod l"
    by (simp add: z_def)
  have lo: "0 \<le> a mod l" and hi: "a mod l < l"
    using assms by simp_all
  have 1: "(z - 1) * l < t"
    using eq lo by (simp add: a_def algebra_simps)
  have 2: "t \<le> z * l"
    using eq hi by (simp add: a_def algebra_simps)
  have "real_of_int ((z - 1) * l) < real_of_int t"
    using 1 by (simp only: of_int_less_iff)
  then have 3: "real_of_int z - 1 < real_of_int t / real_of_int l"
    using assms by (simp add: pos_less_divide_eq)
  have "real_of_int t \<le> real_of_int (z * l)"
    using 2 by (simp only: of_int_le_iff)
  then have 4: "real_of_int t / real_of_int l \<le> real_of_int z"
    using assms by (simp add: pos_divide_le_eq)
  have "\<lceil>real_of_int t / real_of_int l\<rceil> = z"
    using 3 4 by (rule ceiling_unique)
  then show ?thesis
    by (simp add: z_def a_def)
qed

lemma PaginatedResponse_validate_Inr:
  assumes "PaginatedResponse_validate raw = Inr r"
  shows "\<exists>d t p l q. raw = \<lparr>data = Some d, total = Some t, page = Some p, limit = Some l,
             pages = Some q\<rparr> \<and>
           r = \<lparr>data = Some d, total = Some t, page = Some p, limit = Some l,
             pages = Some (if l > 0 then (t + l - 1) div l else 0)\<rparr>"
proof -
  obtain d t p l q where raw: "raw = \<lparr>data = d, total = t, page = p, limit = l, pages = q\<rparr>"
    by (cases raw) auto
  show ?thesis
    using assms unfolding raw
    by (cases d; cases t; cases p; cases l; cases q)
       (simp_all add: PaginatedResponse_validate_def validate_field_def finish_def accept_def
          calculate_pages_def PaginatedResponse_empty_def)
qed

text \<open>
  C10. A successfully constructed \<open>PaginatedResponse\<close> has \<open>total\<close> and \<open>limit\<close> as
  supplied and \<open>pages\<close> recomputed from them: the ceiling of \<open>total / limit\<close> for a
  positive \<open>limit\<close>, zero otherwise, whatever \<open>pages\<close> the caller supplied; for
  \<open>limit \<ge> 1\<close> this is the value \<open>list_users\<close> computes. (It holds for negative
  \<open>total\<close> as well.)
\<close>

theorem PaginatedResponse_pages:
  assumes "PaginatedResponse_validate raw = Inr r"
  shows "\<exists>t l p. total raw = Some t \<and> limit raw = Some l \<and>
           total r = Some t \<and> limit r = Some l \<and> pages r = Some p \<and>
           p = (if 0 < l then \<lceil>real_of_int t / real_of_int l\<rceil> else 0) \<and>
           (1 \<le> l \<longrightarrow> list_users_pages t l = Inr p) \<and>
           (\<forall>q. PaginatedResponse_validate (raw\<lparr>pages := Some q\<rparr>) = Inr r)"
proof -
  from PaginatedResponse_validate_Inr [OF assms]
  obtain d t p l q where
    raw: "raw = \<lparr>data = Some d, total = Some t, page = Some p, limit = Some l, pages = Some q\<rparr>"
    and r: "r = \<lparr>data = Some d, total = Some t, page = Some p, limit = Some l,
              pages = Some (if l > 0 then (t + l - 1) div l else 0)\<rparr>"
    by blast
  have over: "PaginatedResponse_validate (raw\<lparr>pages := Some q'\<rparr>) = Inr r" for q'
    unfolding raw r
    by (simp add: PaginatedResponse_validate_def validate_field_def finish_def accept_def
          calculate_pages_def PaginatedResponse_empty_def)
  have ceil: "(if l > 0 then (t + l - 1) div l else 0) =
              (if 0 < l then \<lceil>real_of_int t / real_of_int l\<rceil> else 0)"
    by (simp add: ceiling_div_int)
  have lu: "1 \<le> l \<longrightarrow>
      list_users_pages t l = Inr (if 0 < l then \<lceil>real_of_int t / real_of_int l\<rceil> else 0)"
    using ceiling_div_int [of l t] by (auto simp: list_users_pages_def)
  have pg: "pages r = Some (if 0 < l then \<lceil>real_of_int t / real_of_int l\<rceil> else 0)"
    using ceil by (simp add: r)
  have "total raw = Some t" "limit raw = Some l" "total r = Some t" "limit r = Some l"
    by (simp_all add: raw r)
  with pg lu over show ?thesis
    by blast
qed

theorem PaginatedResponse_pages_witness:
  "PaginatedResponse_validate
     \<lparr>data = Some [], total = Some 45, page = Some 1, limit = Some 20, pages = Some 999\<rparr> =
   Inr \<lparr>data = Some [], total = Some 45, page = Some 1, limit = Some 20, pages = Some 3\<rparr> \<and>
   (\<exists>t l p. Some (45::int) = Some t \<and> Some (20::int) = Some l \<and> Some (3::int) = Some p \<and>
      p = (if 0 < l then \<lceil>real_of_int t / real_of_int l\<rceil> else 0) \<and>
      (1 \<le> l \<longrightarrow> list_users_pages t l = Inr p))"
proof -
  have h: "PaginatedResponse_validate
     \<lparr>data = Some [], total = Some 45, page = Some 1, limit = Some 20, pages = Some 999\<rparr> =
   Inr \<lparr>data = Some [], total = Some 45, page = Some 1, limit = Some 20, pages = Some 3\<rparr>"
    by (simp add: PaginatedResponse_validate_def validate_field_def finish_def accept_def
          calculate_pages_def PaginatedResponse_empty_def)
  show ?thesis
    using h PaginatedResponse_pages [OF h] by simp
qed

subsection \<open>Security headers\<close>

lemma filter_replace_first:
  assumes "\<And>h. P h \<Longrightarrow> fst h \<noteq> k"
  shows "filter P (replace_first k v hs) = filter P hs"
proof (induction hs)
  case Nil
  then show ?case by simp
next
  case (Cons h hs)
  have "filter (\<lambda>x. fst x \<noteq> k \<and> P x) hs = filter P hs"
    using assms by (intro filter_cong) auto
  with Cons assms [of h] assms [of "(k, v)"] show ?case by auto
qed

lemma filter_setitem_other:
  assumes "\<And>h. P h \<Longrightarrow> fst h \<noteq> lower key"
  shows "filter P (MutableHeaders_setitem hs key v) = filter P hs"
proof (cases "lower key \<in> fst ` set hs")
  case True
  then show ?thesis
    using assms by (simp add: MutableHeaders_setitem_def filter_replace_first)
next
  case False
  then show ?thesis
    using assms [of "(lower key, v)"] by (auto simp: MutableHeaders_setitem_def)
qed

lemma filter_replace_first_same:
  "k \<in> fst ` set hs \<Longrightarrow> filter (\<lambda>h. fst h = k) (replace_first k v hs) = [(k, v)]"
  by (induction hs) (auto simp: filter_empty_conv)

lemma filter_setitem_same:
  "filter (\<lambda>h. fst h = lower key) (MutableHeaders_setitem hs key v) = [(lower key, v)]"
proof (cases "lower key \<in> fst ` set hs")
  case True
  then show ?thesis
    by (simp add: MutableHeaders_setitem_def filter_replace_first_same)
next
  case False
  then have "filter (\<lambda>h. fst h = lower key) hs = []"
    by (force simp: filter_empty_conv)
  with False show ?thesis
    by (simp add: MutableHeaders_setitem_def)
qed

lemma set_header_frame [simp]:
  "status_code (set_header r key v) = status_code r"
  "body (set_header r key v) = body r"
  "response.more (set_header r key v) = response.more r"
  by (simp_all add: set_header_def)

lemma raw_headers_set_header:
  "raw_headers (set_header r key v) = MutableHeaders_setitem (raw_headers r) key v"
  by (simp add: set_header_def)

lemma lower_keys:
  "lower ''X-Content-Type-Options'' = ''x-content-type-options''"
  "lower ''X-Frame-Options'' = ''x-frame-options''"
  "lower ''X-XSS-Protection'' = ''x-xss-protection''"
  "lower ''Strict-Transport-Security'' = ''strict-transport-security''"
  "lower ''Referrer-Policy'' = ''referrer-policy''"
  by code_simp+

lemma filter_setitem_key:
  "k' = lower key \<Longrightarrow> filter (\<lambda>h. fst h = k') (MutableHeaders_setitem hs key v) = [(k', v)]"
  by (simp add: filter_setitem_same)

lemma filter_setitem_other_key:
  "k' \<noteq> lower key \<Longrightarrow>
   filter (\<lambda>h. fst h = k') (MutableHeaders_setitem hs key v) = filter (\<lambda>h. fst h = k') hs"
  by (rule filter_setitem_other) simp

lemma filter_setitem_notin:
  "lower key \<in> K \<Longrightarrow>
   filter (\<lambda>h. fst h \<notin> K) (MutableHeaders_setitem hs key v) = filter (\<lambda>h. fst h \<notin> K) hs"
  by (rule filter_setitem_other) auto

text \<open>
  C8. When the inner handler returns a response, \<open>SecurityHeadersMiddleware.dispatch\<close>
  returns it with the status code and the body it had; each of the five security headers
  has exactly one entry, with its fixed value; and the entries of every other name are
  the ones the inner handler set, in the same order.
\<close>

theorem SecurityHeaders_dispatch:
  assumes "call_next request = Inr response"
  shows "\<exists>out. SecurityHeadersMiddleware_dispatch call_next request = Inr out \<and>
           status_code out = status_code response \<and> body out = body response \<and>
           (\<forall>kv \<in> set security_headers.
              filter (\<lambda>h. fst h = lower (fst kv)) (raw_headers out) = [(lower (fst kv), snd kv)]) \<and>
           filter (\<lambda>h. fst h \<notin> set (map (lower \<circ> fst) security_headers)) (raw_headers out) =
           filter (\<lambda>h. fst h \<notin> set (map (lower \<circ> fst) security_headers)) (raw_headers response)"
proof -
  define out where "out = set_header (set_header (set_header (set_header (set_header response
      ''X-Content-Type-Options'' ''nosniff'') ''X-Frame-Options'' ''DENY'')
      ''X-XSS-Protection'' ''1; mode=block'')
      ''Strict-Transport-Security'' ''max-age=31536000; includeSubDomains'')
      ''Referrer-Policy'' ''strict-origin-when-cross-origin''"
  define K where "K = set (map (lower \<circ> fst) security_headers)"
  have run: "SecurityHeadersMiddleware_dispatch call_next request = Inr out"
    using assms by (simp add: SecurityHeadersMiddleware_dispatch_def out_def)
  have frame: "status_code out = status_code response" "body out = body response"
    by (simp_all add: out_def)
  have K: "lower ''X-Content-Type-Options'' \<in> K" "lower ''X-Frame-Options'' \<in> K"
    "lower ''X-XSS-Protection'' \<in> K" "lower ''Strict-Transport-Security'' \<in> K"
    "lower ''Referrer-Policy'' \<in> K"
    by (simp_all add: K_def security_headers_def)
  have others: "filter (\<lambda>h. fst h \<notin> K) (raw_headers out) =
                filter (\<lambda>h. fst h \<notin> K) (raw_headers response)"
    by (simp add: out_def raw_headers_set_header filter_setitem_notin K)
  have five: "filter (\<lambda>h. fst h = lower (fst kv)) (raw_headers out) = [(lower (fst kv), snd kv)]"
    if "kv \<in> set security_headers" for kv
    using that
    by (auto simp: security_headers_def out_def raw_headers_set_header lower_keys
          filter_setitem_key filter_setitem_other_key)
  show ?thesis
    using run frame others five unfolding K_def by blast
qed

theorem SecurityHeaders_dispatch_witness:
  "(\<lambda>r. Inr \<lparr>status_code = 200, body = ''ok'',
        raw_headers = [(''content-type'', ''text/plain''), (''x-frame-options'', ''SAMEORIGIN''),
                       (''set-cookie'', ''a=1''), (''x-frame-options'', ''ALLOWALL'')]\<rparr>)
     \<lparr>path = ''/api/users'', client = None, headers = [], user_id = None\<rparr> =
   (Inr \<lparr>status_code = 200, body = ''ok'',
        raw_headers = [(''content-type'', ''text/plain''), (''x-frame-options'', ''SAMEORIGIN''),
                       (''set-cookie'', ''a=1''), (''x-frame-options'', ''ALLOWALL'')]\<rparr>
      :: unit + string response) \<and>
   (\<exists>out. SecurityHeadersMiddleware_dispatch
       (\<lambda>r. Inr \<lparr>status_code = 200, body = ''ok'',
          raw_headers = [(''content-type'', ''text/plain''), (''x-frame-options'', ''SAMEORIGIN''),
                         (''set-cookie'', ''a=1''), (''x-frame-options'', ''ALLOWALL'')]\<rparr>
          :: unit + string response)
       \<lparr>path = ''/api/users'', client = None, headers = [], user_id = None\<rparr> = Inr out \<and>
     status_code out = 200 \<and> body out = ''ok'' \<and>
     filter (\<lambda>h. fst h \<notin> set (map (lower \<circ> fst) security_headers)) (raw_headers out) =
       [(''content-type'', ''text/plain''), (''set-cookie'', ''a=1'')])"
proof -
  let ?resp = "\<lparr>status_code = 200, body = ''ok'',
        raw_headers = [(''content-type'', ''text/plain''), (''x-frame-options'', ''SAMEORIGIN''),
                       (''set-cookie'', ''a=1''), (''x-frame-options'', ''ALLOWALL'')]\<rparr> :: string response"
  let ?req = "\<lparr>path = ''/api/users'', client = None, headers = [], user_id = None\<rparr>"
  have h: "(\<lambda>r. Inr ?resp :: unit + string response) ?req = Inr ?resp"
    by simp
  have K: "filter (\<lambda>h. fst h \<notin> set (map (lower \<circ> fst) security_headers)) (raw_headers ?resp) =
       [(''content-type'', ''text/plain''), (''set-cookie'', ''a=1'')]"
    by (simp add: security_headers_def lower_keys)
  show ?thesis
    using SecurityHeaders_dispatch [OF h] K by auto
qed

subsection \<open>Authentication\<close>

lemma lower_www:
  "lower ''WWW-Authenticate'' = ''www-authenticate''"
  "lower ''Authorization'' = ''authorization''"
  by code_simp+

lemma unauthorized_eq:
  "unauthorized m =
     Return \<lparr>status_code = 401, body = PDict [(''error'', PStr m)],
             raw_headers = [(''www-authenticate'', ''Bearer'')]\<rparr>"
  by (simp add: unauthorized_def JSONResponse_def lower_www)

text \<open>
  C7. \<open>AuthenticationMiddleware.dispatch\<close> hands a request whose path starts with one
  of the six public paths to the inner handler as it is, whatever its headers and
  whatever \<open>verify_token\<close> would say. A request with no such path and no
  \<open>Authorization\<close> header that starts with \<open>Bearer \<close> gets the 401 response with the
  body \<open>{"error": "Authentication required"}\<close> and the header
  \<open>WWW-Authenticate: Bearer\<close>; the inner handler is not called.
\<close>

theorem AuthenticationMiddleware_dispatch_public_or_401:
  "(p \<in> set [''/health'', ''/docs'', ''/redoc'', ''/openapi.json'', ''/auth/login'',
              ''/auth/register''] \<and> startswith (path request) p \<longrightarrow>
      AuthenticationMiddleware_dispatch verify_token request = CallNext request) \<and>
   ((\<forall>q \<in> set [''/health'', ''/docs'', ''/redoc'', ''/openapi.json'', ''/auth/login'',
                 ''/auth/register'']. \<not> startswith (path request) q) \<and>
    (\<forall>h. Headers_get (headers request) ''Authorization'' = Some h \<longrightarrow>
           \<not> startswith h ''Bearer '') \<longrightarrow>
      AuthenticationMiddleware_dispatch verify_token request =
        Return \<lparr>status_code = 401, body = PDict [(''error'', PStr ''Authentication required'')],
                raw_headers = [(''www-authenticate'', ''Bearer'')]\<rparr>)"
proof (intro conjI impI)
  assume "p \<in> set [''/health'', ''/docs'', ''/redoc'', ''/openapi.json'', ''/auth/login'',
              ''/auth/register''] \<and> startswith (path request) p"
  then have "list_ex (\<lambda>p. startswith (path request) p) public_paths"
    unfolding list_ex_iff public_paths_def by blast
  then show "AuthenticationMiddleware_dispatch verify_token request = CallNext request"
    by (simp add: AuthenticationMiddleware_dispatch_def)
next
  assume a: "(\<forall>q \<in> set [''/health'', ''/docs'', ''/redoc'', ''/openapi.json'', ''/auth/login'',
                 ''/auth/register'']. \<not> startswith (path request) q) \<and>
    (\<forall>h. Headers_get (headers request) ''Authorization'' = Some h \<longrightarrow>
           \<not> startswith h ''Bearer '')"
  then have np: "\<not> list_ex (\<lambda>p. startswith (path request) p) public_paths"
    unfolding list_ex_iff public_paths_def by blast
  show "AuthenticationMiddleware_dispatch verify_token request =
        Return \<lparr>status_code = 401, body = PDict [(''error'', PStr ''Authentication required'')],
                raw_headers = [(''www-authenticate'', ''Bearer'')]\<rparr>"
  proof (cases "Headers_get (headers request) ''Authorization''")
    case None
    with np show ?thesis
      by (simp add: AuthenticationMiddleware_dispatch_def unauthorized_eq)
  next
    case (Some h)
    with a have "\<not> startswith h ''Bearer ''" by blast
    with np Some show ?thesis
      by (simp add: AuthenticationMiddleware_dispatch_def unauthorized_eq)
  qed
qed

theorem AuthenticationMiddleware_dispatch_public_or_401_witness:
  "startswith (path \<lparr>path = ''/docs/index.html'', client = None, headers = [], user_id = None\<rparr>)
     ''/docs'' \<and>
   AuthenticationMiddleware_dispatch (\<lambda>t. (Inl () :: unit + int))
     \<lparr>path = ''/docs/index.html'', client = None, headers = [], user_id = None\<rparr> =
   CallNext \<lparr>path = ''/docs/index.html'', client = None, headers = [], user_id = None\<rparr> \<and>
   \<not> list_ex (startswith (path \<lparr>path = ''/api/users'', client = Some ''10.0.0.1'',
                  headers = [(''authorization'', ''Basic dXNlcg=='')], user_id = None\<rparr>))
       public_paths \<and>
   Headers_get (headers \<lparr>path = ''/api/users'', client = Some ''10.0.0.1'',
                  headers = [(''authorization'', ''Basic dXNlcg=='')], user_id = None\<rparr>)
     ''Authorization'' = Some ''Basic dXNlcg=='' \<and>
   \<not> startswith ''Basic dXNlcg=='' ''Bearer '' \<and>
   AuthenticationMiddleware_dispatch (\<lambda>t. (Inr 1 :: unit + int))
     \<lparr>path = ''/api/users'', client = Some ''10.0.0.1'',
        headers = [(''authorization'', ''Basic dXNlcg=='')], user_id = None\<rparr> =
   Return \<lparr>status_code = 401, body = PDict [(''error'', PStr ''Authentication required'')],
            raw_headers = [(''www-authenticate'', ''Bearer'')]\<rparr>"
proof -
  let ?r1 = "\<lparr>path = ''/docs/index.html'', client = None, headers = [], user_id = None\<rparr>"
  let ?r2 = "\<lparr>path = ''/api/users'', client = Some ''10.0.0.1'',
                  headers = [(''authorization'', ''Basic dXNlcg=='')], user_id = None\<rparr>"
  have s1: "startswith (path ?r1) ''/docs''"
    by (simp add: startswith_def)
  have s2: "\<not> list_ex (startswith (path ?r2)) public_paths"
    by (simp add: startswith_def public_paths_def)
  have s3: "Headers_get (headers ?r2) ''Authorization'' = Some ''Basic dXNlcg==''"
    by (simp add: Headers_get_def lower_www)
  have s4: "\<not> startswith ''Basic dXNlcg=='' ''Bearer ''"
    by (simp add: startswith_def)
  have h1: "''/docs'' \<in> set [''/health'', ''/docs'', ''/redoc'', ''/openapi.json'', ''/auth/login'',
              ''/auth/register''] \<and> startswith (path ?r1) ''/docs''"
    using s1 by simp
  have h2: "(\<forall>q \<in> set [''/health'', ''/docs'', ''/redoc'', ''/openapi.json'', ''/auth/login'',
                 ''/auth/register'']. \<not> startswith (path ?r2) q) \<and>
    (\<forall>h. Headers_get (headers ?r2) ''Authorization'' = Some h \<longrightarrow> \<not> startswith h ''Bearer '')"
    by (simp add: startswith_def Headers_get_def lower_www)
  note w1 = AuthenticationMiddleware_dispatch_public_or_401
        [of "''/docs''" ?r1 "\<lambda>t. (Inl () :: unit + int)", THEN conjunct1, THEN mp, OF h1]
  note w2 = AuthenticationMiddleware_dispatch_public_or_401
        [of "''/docs''" ?r2 "\<lambda>t. (Inr 1 :: unit + int)", THEN conjunct2, THEN mp, OF h2]
  show ?thesis
    by (intro conjI s1 s2 s3 s4 w1 w2)
qed

subsection \<open>Rate limiting\<close>

lemma dispatch_health:
  "path request = ''/health'' \<Longrightarrow>
   RateLimitMiddleware_dispatch self now request = (CallNext request, self)"
  by (simp add: RateLimitMiddleware_dispatch_def)

lemma dispatch_reject:
  assumes "path request \<noteq> ''/health''"
    and "requests_per_minute self \<le> int (length (trimmed self now request))"
  shows "RateLimitMiddleware_dispatch self now request =
     (Return (JSONResponse 429 (rate_limit_body (requests_per_minute self)) []),
      self\<lparr>requests := (requests self)(client_id request \<mapsto> trimmed self now request)\<rparr>)"
  using assms by (simp add: RateLimitMiddleware_dispatch_def trimmed_def Let_def)

lemma dispatch_forward:
  assumes "path request \<noteq> ''/health''"
    and "int (length (trimmed self now request)) < requests_per_minute self"
  shows "RateLimitMiddleware_dispatch self now request =
     (CallNext request,
      self\<lparr>requests := (requests self)(client_id request \<mapsto> trimmed self now request @ [now])\<rparr>)"
  using assms by (simp add: RateLimitMiddleware_dispatch_def trimmed_def Let_def)

lemma dispatch_cases [case_names health reject forward]:
  assumes "path request = ''/health'' \<Longrightarrow> P"
    and "path request \<noteq> ''/health'' \<Longrightarrow>
         requests_per_minute self \<le> int (length (trimmed self now request)) \<Longrightarrow> P"
    and "path request \<noteq> ''/health'' \<Longrightarrow>
         int (length (trimmed self now request)) < requests_per_minute self \<Longrightarrow> P"
  shows P
  using assms by fastforce

lemma dispatch_rpm [simp]:
  "requests_per_minute (snd (RateLimitMiddleware_dispatch self now request)) =
   requests_per_minute self"
  by (cases rule: dispatch_cases [where request = request and self = self and now = now])
     (simp_all add: dispatch_health dispatch_reject dispatch_forward)

lemma dispatch_stored:
  "defaultdict_get (requests (snd (RateLimitMiddleware_dispatch self now request))) c =
     (if path request = ''/health'' \<or> c \<noteq> client_id request
      then defaultdict_get (requests self) c
      else trimmed self now request @
           (if int (length (trimmed self now request)) < requests_per_minute self
            then [now] else []))"
  by (cases rule: dispatch_cases [where request = request and self = self and now = now])
     (simp_all add: dispatch_health dispatch_reject dispatch_forward defaultdict_get_def)

lemma length_trimmed_le:
  "length (trimmed self now request) \<le> length (defaultdict_get (requests self) (client_id request))"
  by (simp add: trimmed_def)

lemma bounded_dispatch:
  assumes "bounded self"
  shows "bounded (snd (RateLimitMiddleware_dispatch self now request))"
  unfolding bounded_def
proof
  fix c
  have old: "int (length (defaultdict_get (requests self) c)) \<le> max 0 (requests_per_minute self)"
    for c using assms by (simp add: bounded_def)
  have "int (length (trimmed self now request)) \<le> max 0 (requests_per_minute self)"
    using old [of "client_id request"] length_trimmed_le [of self now request] by linarith
  then show "int (length (defaultdict_get
        (requests (snd (RateLimitMiddleware_dispatch self now request))) c))
      \<le> max 0 (requests_per_minute (snd (RateLimitMiddleware_dispatch self now request)))"
    using old [of c] by (auto simp: dispatch_stored)
qed

lemma run_rpm [simp]: "requests_per_minute (run self es) = requests_per_minute self"
  by (induction es arbitrary: self) simp_all

lemma bounded_run: "bounded self \<Longrightarrow> bounded (run self es)"
  by (induction es arbitrary: self) (simp_all add: bounded_dispatch)

lemma bounded_init: "bounded (RateLimitMiddleware_init rpm)"
  by (simp add: bounded_def RateLimitMiddleware_init_def defaultdict_get_def)

lemma filter_same_length: "length (filter P xs) = length xs \<Longrightarrow> filter P xs = xs"
proof (induction xs)
  case Nil
  then show ?case by simp
next
  case (Cons x xs)
  show ?case
  proof (cases "P x")
    case True
    with Cons show ?thesis by simp
  next
    case False
    with Cons.prems have "length (filter P xs) = Suc (length xs)" by simp
    moreover have "length (filter P xs) \<le> length xs" by simp
    ultimately show ?thesis by linarith
  qed
qed

lemma full_trimmed_unchanged:
  assumes "bounded self"
    and "requests_per_minute self \<le> int (length (trimmed self now request))"
  shows "trimmed self now request = defaultdict_get (requests self) (client_id request)"
proof -
  have "int (length (defaultdict_get (requests self) (client_id request)))
        \<le> max 0 (requests_per_minute self)"
    using assms(1) by (simp add: bounded_def)
  with assms(2) length_trimmed_le [of self now request]
  have "length (trimmed self now request) =
        length (defaultdict_get (requests self) (client_id request))"
    by linarith
  then show ?thesis
    unfolding trimmed_def by (rule filter_same_length)
qed













text \<open>
  C3. When the trimmed list of the client of a request (to a path other than \<open>/health\<close>)
  has at least \<open>requests_per_minute\<close> entries, \<open>dispatch\<close> returns the 429 response
  with the body \<open>{"error": "Rate limit exceeded", "detail": ...}\<close> instead of calling the
  inner handler, and stores the trimmed list, to which the request adds nothing. In every
  state the middleware reaches from its initial one, that trimmed list is the list that
  was stored before, so no client's list changes.
\<close>

theorem RateLimit_reject:
  assumes "path request \<noteq> ''/health''"
    and "requests_per_minute self \<le> int (length (trimmed self now request))"
  shows "fst (RateLimitMiddleware_dispatch self now request) =
           Return \<lparr>status_code = 429,
             body = PDict [(''error'', PStr ''Rate limit exceeded''),
                           (''detail'', PStr (''Maximum '' @ str_int (requests_per_minute self) @
                                              '' requests per minute''))],
             raw_headers = []\<rparr> \<and>
         requests (snd (RateLimitMiddleware_dispatch self now request)) =
           (requests self)(client_id request \<mapsto> trimmed self now request) \<and>
         (self = run (RateLimitMiddleware_init rpm) es \<longrightarrow>
            (\<forall>c. defaultdict_get (requests (snd (RateLimitMiddleware_dispatch self now request))) c =
                 defaultdict_get (requests self) c))"
proof (intro conjI impI allI)
  show "fst (RateLimitMiddleware_dispatch self now request) =
           Return \<lparr>status_code = 429,
             body = PDict [(''error'', PStr ''Rate limit exceeded''),
                           (''detail'', PStr (''Maximum '' @ str_int (requests_per_minute self) @
                                              '' requests per minute''))],
             raw_headers = []\<rparr>"
    using assms by (simp add: dispatch_reject JSONResponse_def rate_limit_body_def)
  show "requests (snd (RateLimitMiddleware_dispatch self now request)) =
           (requests self)(client_id request \<mapsto> trimmed self now request)"
    using assms by (simp add: dispatch_reject)
next
  fix c
  assume "self = run (RateLimitMiddleware_init rpm) es"
  then have "bounded self"
    by (simp add: bounded_run bounded_init)
  then have "trimmed self now request = defaultdict_get (requests self) (client_id request)"
    using assms(2) by (rule full_trimmed_unchanged)
  then show "defaultdict_get (requests (snd (RateLimitMiddleware_dispatch self now request))) c =
             defaultdict_get (requests self) c"
    using assms by (simp add: dispatch_stored)
qed

theorem RateLimit_reject_witness:
  "path \<lparr>path = ''/api/users'', client = Some ''10.0.0.1'', headers = [], user_id = None\<rparr>
     \<noteq> ''/health'' \<and>
   requests_per_minute (run (RateLimitMiddleware_init 2)
       [(0, \<lparr>path = ''/api/users'', client = Some ''10.0.0.1'', headers = [], user_id = None\<rparr>),
        (1, \<lparr>path = ''/api/users'', client = Some ''10.0.0.1'', headers = [], user_id = None\<rparr>)])
     \<le> int (length (trimmed (run (RateLimitMiddleware_init 2)
       [(0, \<lparr>path = ''/api/users'', client = Some ''10.0.0.1'', headers = [], user_id = None\<rparr>),
        (1, \<lparr>path = ''/api/users'', client = Some ''10.0.0.1'', headers = [], user_id = None\<rparr>)])
       2 \<lparr>path = ''/api/users'', client = Some ''10.0.0.1'', headers = [], user_id = None\<rparr>)) \<and>
   fst (RateLimitMiddleware_dispatch (run (RateLimitMiddleware_init 2)
       [(0, \<lparr>path = ''/api/users'', client = Some ''10.0.0.1'', headers = [], user_id = None\<rparr>),
        (1, \<lparr>path = ''/api/users'', client = Some ''10.0.0.1'', headers = [], user_id = None\<rparr>)])
       2 \<lparr>path = ''/api/users'', client = Some ''10.0.0.1'', headers = [], user_id = None\<rparr>) =
     Return \<lparr>status_code = 429,
       body = PDict [(''error'', PStr ''Rate limit exceeded''),
                     (''detail'', PStr ''Maximum 2 requests per minute'')],
       raw_headers = []\<rparr> \<and>
   defaultdict_get (requests (snd (RateLimitMiddleware_dispatch (run (RateLimitMiddleware_init 2)
       [(0, \<lparr>path = ''/api/users'', client = Some ''10.0.0.1'', headers = [], user_id = None\<rparr>),
        (1, \<lparr>path = ''/api/users'', client = Some ''10.0.0.1'', headers = [], user_id = None\<rparr>)])
       2 \<lparr>path = ''/api/users'', client = Some ''10.0.0.1'', headers = [], user_id = None\<rparr>)))
     ''10.0.0.1'' = [0, 1]"
proof -
  let ?r = "\<lparr>path = ''/api/users'', client = Some ''10.0.0.1'', headers = [], user_id = None\<rparr>"
  let ?es = "[(0::int, ?r), (1, ?r)]"
  let ?self = "run (RateLimitMiddleware_init 2) ?es"
  have stored: "defaultdict_get (requests ?self) ''10.0.0.1'' = [0, 1]"
    by (simp add: RateLimitMiddleware_dispatch_def RateLimitMiddleware_init_def
          client_id_def minute_def defaultdict_get_def)
  have digits: "str_int 2 = ''2''"
    by code_simp
  have h1: "path ?r \<noteq> ''/health''"
    by simp
  have cid: "client_id ?r = ''10.0.0.1''"
    by (simp add: client_id_def)
  have rpm: "requests_per_minute ?self = 2"
    by (simp add: RateLimitMiddleware_init_def)
  have h2: "requests_per_minute ?self \<le> int (length (trimmed ?self 2 ?r))"
    unfolding trimmed_def cid stored rpm by (simp add: minute_def)
  note w = RateLimit_reject [OF h1 h2, of 2 ?es]
  have c1: "fst (RateLimitMiddleware_dispatch ?self 2 ?r) =
     Return \<lparr>status_code = 429,
       body = PDict [(''error'', PStr ''Rate limit exceeded''),
                     (''detail'', PStr ''Maximum 2 requests per minute'')],
       raw_headers = []\<rparr>"
    using w [THEN conjunct1] unfolding rpm digits by simp
  have c2: "defaultdict_get (requests (snd (RateLimitMiddleware_dispatch ?self 2 ?r))) ''10.0.0.1'' = [0, 1]"
    using w [THEN conjunct2, THEN conjunct2, THEN mp, OF refl, THEN spec, of "''10.0.0.1''"]
    unfolding stored .
  show ?thesis
    by (intro conjI h1 h2 c1 c2)
qed


subsection \<open>Error envelope\<close>

lemma format_details_eq:
  "format_details es ds =
     ds @ map (\<lambda>e. \<lparr>field = join ''.'' (map str_loc (loc e)), message = msg e\<rparr>) es"
  by (induction es arbitrary: ds) simp_all

lemma handler_errors_eq:
  "handler_errors es ds =
     ds @ map (\<lambda>e. PDict [(''field'', PStr (join ''.'' (map str_loc (loc e)))),
                         (''message'', PStr (msg e)),
                         (''type'', PStr (type e))]) es"
  by (induction es arbitrary: ds) simp_all

text \<open>
  What \<open>join\<close> computes, in terms of the list library: every part is prefixed with the
  separator, the parts are concatenated, and the separator at the front is dropped.
\<close>

lemma join_concat: "join sep xs = drop (length sep) (concat (map (\<lambda>x. sep @ x) xs))"
  by (induction sep xs rule: join.induct) simp_all

lemma join_dot: "join ''.'' xs = drop 1 (concat (map (\<lambda>x. CHR ''.'' # x) xs))"
  using join_concat [of "''.''" xs] by simp

text \<open>
  C6. For every list of validation errors, \<open>format_validation_error\<close> gives the envelope
  with \<open>error = "Validation failed"\<close> and one detail for each error, in order, whose
  \<open>field\<close> is the location path joined with dots (each item of the location as \<open>str\<close>
  gives it, a dot before each, the dot at the front dropped) and whose \<open>message\<close> is
  the error's; \<open>validation_exception_handler\<close> answers with status 400 and a body with
  the same \<open>error\<close> and the same fields in its \<open>details\<close>.
\<close>

theorem validation_error_envelope:
  "error (format_validation_error errs) = ''Validation failed'' \<and>
   (\<exists>ds. details (format_validation_error errs) = Some ds \<and> length ds = length errs \<and>
      map field ds = map (\<lambda>e. drop 1 (concat (map (\<lambda>i. CHR ''.'' # str_loc i) (loc e)))) errs \<and>
      map message ds = map msg errs) \<and>
   status_code (validation_exception_handler request errs timestamp) = 400 \<and>
   dict_get (body (validation_exception_handler request errs timestamp)) ''error'' =
     Some (PStr ''Validation failed'') \<and>
   (\<exists>ds. dict_get (body (validation_exception_handler request errs timestamp)) ''details'' =
           Some (PList ds) \<and> length ds = length errs \<and>
      map (\<lambda>d. dict_get d ''field'') ds =
        map (\<lambda>e. Some (PStr (drop 1 (concat (map (\<lambda>i. CHR ''.'' # str_loc i) (loc e)))))) errs)"
  by (simp add: format_validation_error_def format_details_eq validation_exception_handler_def
        JSONResponse_def handler_errors_eq comp_def join_dot)

text \<open>
  At a location of four items, one of them a list index, and at the location of a root
  validator: the fields are \<open>body.items.0.name\<close> and \<open>__root__\<close>.
\<close>

theorem validation_error_envelope_witness:
  "error (format_validation_error
     [\<lparr>loc = [LocStr ''body'', LocStr ''items'', LocInt 0, LocStr ''name''],
       msg = ''field required'', type = ''value_error.missing''\<rparr>,
      \<lparr>loc = [LocStr ''__root__''], msg = ''Passwords do not match'', type = ''value_error''\<rparr>]) =
     ''Validation failed'' \<and>
   (\<exists>ds. details (format_validation_error
     [\<lparr>loc = [LocStr ''body'', LocStr ''items'', LocInt 0, LocStr ''name''],
       msg = ''field required'', type = ''value_error.missing''\<rparr>,
      \<lparr>loc = [LocStr ''__root__''], msg = ''Passwords do not match'', type = ''value_error''\<rparr>]) =
       Some ds \<and>
      map field ds = [''body.items.0.name'', ''__root__''] \<and>
      map message ds = [''field required'', ''Passwords do not match'']) \<and>
   status_code (validation_exception_handler
     \<lparr>path = ''/users'', client = None, headers = [], user_id = None\<rparr>
     [\<lparr>loc = [LocStr ''body'', LocStr ''items'', LocInt 0, LocStr ''name''],
       msg = ''field required'', type = ''value_error.missing''\<rparr>,
      \<lparr>loc = [LocStr ''__root__''], msg = ''Passwords do not match'', type = ''value_error''\<rparr>]
     ''2024-01-01T00:00:00'') = 400 \<and>
   (\<exists>ds. dict_get (body (validation_exception_handler
     \<lparr>path = ''/users'', client = None, headers = [], user_id = None\<rparr>
     [\<lparr>loc = [LocStr ''body'', LocStr ''items'', LocInt 0, LocStr ''name''],
       msg = ''field required'', type = ''value_error.missing''\<rparr>,
      \<lparr>loc = [LocStr ''__root__''], msg = ''Passwords do not match'', type = ''value_error''\<rparr>]
     ''2024-01-01T00:00:00'')) ''details'' = Some (PList ds) \<and>
      map (\<lambda>d. dict_get d ''field'') ds =
        [Some (PStr ''body.items.0.name''), Some (PStr ''__root__'')])"
proof -
  let ?errs = "[\<lparr>loc = [LocStr ''body'', LocStr ''items'', LocInt 0, LocStr ''name''],
       msg = ''field required'', type = ''value_error.missing''\<rparr>,
      \<lparr>loc = [LocStr ''__root__''], msg = ''Passwords do not match'', type = ''value_error''\<rparr>]"
  let ?rq = "\<lparr>path = ''/users'', client = None, headers = [], user_id = None\<rparr>"
  have z: "str_int 0 = ''0''"
    by code_simp
  note w = validation_error_envelope [where errs = ?errs and request = ?rq
        and timestamp = "''2024-01-01T00:00:00''"]
  from w obtain ds where ds: "details (format_validation_error ?errs) = Some ds"
    "map field ds = map (\<lambda>e. drop 1 (concat (map (\<lambda>i. CHR ''.'' # str_loc i) (loc e)))) ?errs"
    "map message ds = map msg ?errs"
    by blast
  from w obtain ps where ps:
    "dict_get (body (validation_exception_handler ?rq ?errs ''2024-01-01T00:00:00'')) ''details'' =
       Some (PList ps)"
    "map (\<lambda>d. dict_get d ''field'') ps =
       map (\<lambda>e. Some (PStr (drop 1 (concat (map (\<lambda>i. CHR ''.'' # str_loc i) (loc e)))))) ?errs"
    by blast
  have d: "\<exists>ds. details (format_validation_error ?errs) = Some ds \<and>
      map field ds = [''body.items.0.name'', ''__root__''] \<and>
      map message ds = [''field required'', ''Passwords do not match'']"
    using ds by (simp add: z)
  have p: "\<exists>ds. dict_get (body (validation_exception_handler ?rq ?errs ''2024-01-01T00:00:00''))
        ''details'' = Some (PList ds) \<and>
      map (\<lambda>d. dict_get d ''field'') ds =
        [Some (PStr ''body.items.0.name''), Some (PStr ''__root__'')]"
    using ps by (simp add: z)
  show ?thesis
    by (intro conjI w [THEN conjunct1] w [THEN conjunct2, THEN conjunct2, THEN conjunct1] d p)
qed

lemma validation_error_envelope_example:
  "format_validation_error
     [\<lparr>loc = [LocStr ''body'', LocStr ''items'', LocInt 0, LocStr ''name''],
       msg = ''field required'', type = ''value_error.missing''\<rparr>,
      \<lparr>loc = [LocStr ''__root__''], msg = ''Passwords do not match'', type = ''value_error''\<rparr>] =
   \<lparr>error = ''Validation failed'',
     details = Some [\<lparr>field = ''body.items.0.name'', message = ''field required''\<rparr>,
                     \<lparr>field = ''__root__'', message = ''Passwords do not match''\<rparr>]\<rparr>"
  by code_simp

subsection \<open>Password confirmation\<close>

lemma finish_Inr: "finish acc = Inr v \<longleftrightarrow> snd acc = [] \<and> v = fst acc"
  by (auto simp: finish_def)

lemma finish_Inl: "finish acc = Inl errs \<longleftrightarrow> errs \<noteq> [] \<and> errs = snd acc"
  by (auto simp: finish_def)

lemma validate_field_okE:
  assumes "snd (validate_field name raw validator store acc) = []"
  obtains x v where "raw = Some x" "validator x (fst acc) = Inr v"
    "validate_field name raw validator store acc = (store v (fst acc), [])" "snd acc = []"
  using assms
  by (auto simp: validate_field_def split: option.splits sum.splits py_error.splits)

lemma validate_root_okE:
  assumes "snd (validate_root validator acc) = []"
  obtains vs where "validator (fst acc) = Inr vs" "validate_root validator acc = (vs, [])"
    "snd acc = []"
  using assms
  by (auto simp: validate_root_def split: sum.splits py_error.splits)

lemma validate_optional_okE:
  assumes "snd (validate_optional raw store acc) = []"
  obtains "validate_optional raw store acc = (store raw (fst acc), [])" "snd acc = []"
  using assms by (auto simp: validate_optional_def)

lemma and_then_InrE:
  assumes "and_then f g x vals = Inr z"
  obtains y where "f x vals = Inr y" "g y vals = Inr z"
  using assms by (auto simp: and_then_def split: sum.splits)

lemma length_validator_Inr: "length_validator lo hi v vals = Inr w \<Longrightarrow> w = v"
  by (auto simp: length_validator_def split: if_splits)

lemma password_strength_Inr: "password_strength U v vals = Inr w \<Longrightarrow> w = v"
  by (auto simp: password_strength_def validate_password_def split: if_splits)

lemma password_field_Inr:
  "and_then (length_validator lo hi) (password_strength U) v vals = Inr w \<Longrightarrow> w = v"
  by (auto elim!: and_then_InrE dest!: length_validator_Inr password_strength_Inr)

lemma UserRegistration_validate_Inr:
  assumes "UserRegistration_validate U EmailStr raw = Inr vals"
  shows "UserRegistration.password raw = UserRegistration.confirm_password raw \<and>
         UserRegistration.password vals = UserRegistration.password raw \<and>
         UserRegistration.confirm_password vals = UserRegistration.confirm_password raw \<and>
         UserRegistration.password raw \<noteq> None"
  using assms
  unfolding UserRegistration_validate_def validate_model_def finish_Inr fold_simps id_apply
  apply (elim conjE validate_root_okE validate_field_okE validate_optional_okE)
  apply (auto simp: accept_def UserRegistration_passwords_match_def UserRegistration_empty_def
           split: if_splits dest!: password_field_Inr)
  done


lemma PasswordChange_validate_Inr:
  assumes "PasswordChange_validate U raw = Inr vals"
  shows "new_password raw = PasswordChange.confirm_password raw \<and>
         new_password vals = new_password raw \<and>
         PasswordChange.confirm_password vals = PasswordChange.confirm_password raw \<and>
         new_password raw \<noteq> None"
  using assms
  unfolding PasswordChange_validate_def validate_model_def finish_Inr fold_simps id_apply
  apply (elim conjE validate_root_okE validate_field_okE validate_optional_okE)
  apply (auto simp: accept_def PasswordChange_passwords_match_def PasswordChange_empty_def
           split: if_splits dest!: password_field_Inr)
  done

lemma PasswordReset_validate_Inr:
  assumes "PasswordReset_validate U raw = Inr vals"
  shows "PasswordReset.password raw = PasswordReset.confirm_password raw \<and>
         PasswordReset.password vals = PasswordReset.password raw \<and>
         PasswordReset.confirm_password vals = PasswordReset.confirm_password raw \<and>
         PasswordReset.password raw \<noteq> None"
  using assms
  unfolding PasswordReset_validate_def validate_model_def finish_Inr fold_simps id_apply
  apply (elim conjE validate_root_okE validate_field_okE validate_optional_okE)
  apply (auto simp: accept_def PasswordReset_passwords_match_def PasswordReset_empty_def
           split: if_splits dest!: password_field_Inr)
  done

lemma validate_model_cases:
  "(\<exists>vals. validate_model steps init = Inr vals) \<or>
   (\<exists>errs. errs \<noteq> [] \<and> validate_model steps init = Inl errs)"
  by (simp add: validate_model_def finish_def)

lemma length_str_of: "length (str_of s) = length s"
  by (simp add: str_of_def)

lemma validate_password_example:
  "validate_password U (str_of ''Abcdef1@'') = Inr (str_of ''Abcdef1@'')"
proof -
  have "strong_password U (str_of ''Abcdef1@'') \<and> password_chars U (str_of ''Abcdef1@'')"
    by (simp add: strong_password_def password_chars_def is_digit_def str_of_simps cp_def)
  then have "re_match U PASSWORD_PATTERN (str_of ''Abcdef1@'' @ [])"
    unfolding re_match_PASSWORD_iff by blast
  then show ?thesis
    by (simp add: validate_password_iff)
qed

lemma PasswordReset_example:
  "PasswordReset_validate U \<lparr>token = Some (str_of ''t''),
    PasswordReset.password = Some (str_of ''Abcdef1@''),
     PasswordReset.confirm_password = Some (str_of ''Abcdef1@'')\<rparr> =
   Inr \<lparr>token = Some (str_of ''t''), PasswordReset.password = Some (str_of ''Abcdef1@''),
     PasswordReset.confirm_password = Some (str_of ''Abcdef1@'')\<rparr>"
  by (simp add: PasswordReset_validate_def validate_model_def finish_def validate_field_def
        validate_root_def and_then_def length_validator_def password_strength_def accept_def
        validate_password_example PasswordReset_passwords_match_def PasswordReset_empty_def
        length_str_of)


lemma old_new: "str_of ''Abcdef1@'' \<noteq> str_of ''old''"
  by (simp add: str_of_simps)

lemma PasswordChange_example:
  "PasswordChange_validate U \<lparr>current_password = Some (str_of ''old''),
    new_password = Some (str_of ''Abcdef1@''),
     PasswordChange.confirm_password = Some (str_of ''Abcdef1@'')\<rparr> =
   Inr \<lparr>current_password = Some (str_of ''old''), new_password = Some (str_of ''Abcdef1@''),
     PasswordChange.confirm_password = Some (str_of ''Abcdef1@'')\<rparr>"
  by (simp add: PasswordChange_validate_def validate_model_def finish_def validate_field_def
        validate_root_def and_then_def length_validator_def password_strength_def accept_def
        validate_password_example PasswordChange_passwords_match_def PasswordChange_empty_def
        length_str_of old_new)

lemma re_match_USERNAME:
  "re_match U USERNAME_PATTERN s \<longleftrightarrow>
     (\<exists>j. 3 \<le> j \<and> j \<le> 30 \<and>
        j \<le> length (takeWhile (in_items U [Range (cp CHR ''a'') (cp CHR ''z''),
                                            Range (cp CHR ''A'') (cp CHR ''Z''),
                                            Range (cp CHR ''0'') (cp CHR ''9''),
                                            Ch (cp CHR ''_'')]) s) \<and>
        (drop j s = [] \<or> drop j s = [newline]))"
  unfolding re_match_def USERNAME_PATTERN_def ends_Cat_Bol tail_iff ..

lemma UserRegistration_example:
  "UserRegistration_validate U (\<lambda>v vs. Inr v)
     \<lparr>email = Some (str_of ''Ann@Example.org''), username = Some (str_of ''Ann_1''),
      UserRegistration.password = Some (str_of ''Abcdef1@''),
      UserRegistration.confirm_password = Some (str_of ''Abcdef1@''),
      first_name = Some (str_of ''Ann''), last_name = Some (str_of ''Lee''), birth_date = None,
      accept_terms = Some True\<rparr> =
   Inr \<lparr>email = Some (str_of ''ann@example.org''), username = Some (str_of ''ann_1''),
      UserRegistration.password = Some (str_of ''Abcdef1@''),
      UserRegistration.confirm_password = Some (str_of ''Abcdef1@''),
      first_name = Some (str_of ''Ann''), last_name = Some (str_of ''Lee''), birth_date = None,
      accept_terms = Some True\<rparr>"
proof -
  let ?I = "in_items U [Range (cp CHR ''a'') (cp CHR ''z''), Range (cp CHR ''A'') (cp CHR ''Z''),
                        Range (cp CHR ''0'') (cp CHR ''9''), Ch (cp CHR ''_'')]"
  have tw: "takeWhile ?I (str_of ''Ann_1'') = str_of ''Ann_1''"
    by (simp add: in_items_def str_of_simps cp_def)
  have "3 \<le> (5::nat) \<and> (5::nat) \<le> 30 \<and>
        5 \<le> length (takeWhile ?I (str_of ''Ann_1'')) \<and>
        (drop 5 (str_of ''Ann_1'') = [] \<or> drop 5 (str_of ''Ann_1'') = [newline])"
    unfolding tw by (simp add: str_of_simps)
  then have u: "re_match U USERNAME_PATTERN (str_of ''Ann_1'')"
    unfolding re_match_USERNAME by blast
  have l: "str_lower U (str_of ''Ann@Example.org'') = str_of ''ann@example.org''"
    "str_lower U (str_of ''Ann_1'') = str_of ''ann_1''"
    by (simp_all add: str_lower_def ascii_lower_def str_of_simps cp_def)
  have n: "length (str_of ''Abcdef1@'') = 8" "length (str_of ''Ann'') = 3"
    "length (str_of ''Lee'') = 3"
    by (simp_all add: str_of_simps)
  show ?thesis
    by (simp add: UserRegistration_validate_def validate_model_def finish_def validate_field_def
        validate_root_def validate_optional_def and_then_def length_validator_def
        regex_validator_def password_strength_def accept_def email_lowercase_def
        username_lowercase_def must_accept_terms_def u l n
        validate_password_example UserRegistration_passwords_match_def UserRegistration_empty_def)
qed

text \<open>
  C5. A \<open>UserRegistration\<close>,
    \<open>PasswordChange\<close> or \<open>PasswordReset\<close> that validates has its

     password field (\<open>new_password\<close> for \<open>PasswordChange\<close>) equal to \<open>confirm_password\<close>, in
  the input and in the validated values; an input in which the two differ is rejected
  with a non-empty list of validation errors.
\<close>

theorem passwords_must_match:
  "(UserRegistration_validate U EmailStr reg = Inr reg' \<longrightarrow>
      UserRegistration.password reg = UserRegistration.confirm_password reg \<and>
      UserRegistration.password reg' = UserRegistration.confirm_password reg') \<and>
   (UserRegistration.password reg \<noteq> UserRegistration.confirm_password reg \<longrightarrow>
      (\<exists>errs. errs \<noteq> [] \<and> UserRegistration_validate U EmailStr reg = Inl errs)) \<and>
   (PasswordChange_validate U chg = Inr chg' \<longrightarrow>
      new_password chg = PasswordChange.confirm_password chg \<and>
      new_password chg' = PasswordChange.confirm_password chg') \<and>
   (new_password chg \<noteq> PasswordChange.confirm_password chg \<longrightarrow>
      (\<exists>errs. errs \<noteq> [] \<and> PasswordChange_validate U chg = Inl errs)) \<and>
   (PasswordReset_validate U rst = Inr rst' \<longrightarrow>
      PasswordReset.password rst = PasswordReset.confirm_password rst \<and>
      PasswordReset.password rst' = PasswordReset.confirm_password rst') \<and>
   (PasswordReset.password rst \<noteq> PasswordReset.confirm_password rst \<longrightarrow>
      (\<exists>errs. errs \<noteq> [] \<and> PasswordReset_validate U rst = Inl errs))"
proof (intro conjI impI)
  assume "UserRegistration_validate U EmailStr reg = Inr reg'"
  from UserRegistration_validate_Inr [OF this]
  show "UserRegistration.password reg = UserRegistration.confirm_password reg"
    and "UserRegistration.password reg' = UserRegistration.confirm_password reg'"
    by simp_all
next
  assume ne: "UserRegistration.password reg \<noteq> UserRegistration.confirm_password reg"
  have "(\<exists>vals. UserRegistration_validate U EmailStr reg = Inr vals) \<or>
        (\<exists>errs. errs \<noteq> [] \<and> UserRegistration_validate U EmailStr reg = Inl errs)"
    unfolding UserRegistration_validate_def by (rule validate_model_cases)
  then show "\<exists>errs. errs \<noteq> [] \<and> UserRegistration_validate U EmailStr reg = Inl errs"
  proof
    assume "\<exists>vals. UserRegistration_validate U EmailStr reg = Inr vals"
    then obtain vals where "UserRegistration_validate U EmailStr reg = Inr vals" ..
    from UserRegistration_validate_Inr [OF this] ne show ?thesis
      by simp
  qed
next
  assume "PasswordChange_validate U chg = Inr chg'"
  from PasswordChange_validate_Inr [OF this]
  show "new_password chg = PasswordChange.confirm_password chg"
    and "new_password chg' = PasswordChange.confirm_password chg'"
    by simp_all
next
  assume ne: "new_password chg \<noteq> PasswordChange.confirm_password chg"
  have "(\<exists>vals. PasswordChange_validate U chg = Inr vals) \<or>
        (\<exists>errs. errs \<noteq> [] \<and> PasswordChange_validate U chg = Inl errs)"
    unfolding PasswordChange_validate_def by (rule validate_model_cases)
  then show "\<exists>errs. errs \<noteq> [] \<and> PasswordChange_validate U chg = Inl errs"
  proof
    assume "\<exists>vals. PasswordChange_validate U chg = Inr vals"
    then obtain vals where "PasswordChange_validate U chg = Inr vals" ..
    from PasswordChange_validate_Inr [OF this] ne show ?thesis
      by simp
  qed
next
  assume "PasswordReset_validate U rst = Inr rst'"
  from PasswordReset_validate_Inr [OF this]
  show "PasswordReset.password rst = PasswordReset.confirm_password rst"
    and "PasswordReset.password rst' = PasswordReset.confirm_password rst'"
    by simp_all
next
  assume ne: "PasswordReset.password rst \<noteq> PasswordReset.confirm_password rst"
  have "(\<exists>vals. PasswordReset_validate U rst = Inr vals) \<or>
        (\<exists>errs. errs \<noteq> [] \<and> PasswordReset_validate U rst = Inl errs)"
    unfolding PasswordReset_validate_def by (rule validate_model_cases)
  then show "\<exists>errs. errs \<noteq> [] \<and> PasswordReset_validate U rst = Inl errs"
  proof
    assume "\<exists>vals. PasswordReset_validate U rst = Inr vals"
    then obtain vals where "PasswordReset_validate U rst = Inr vals" ..
    from PasswordReset_validate_Inr [OF this] ne show ?thesis
      by simp
  qed
qed

theorem passwords_must_match_witness:
  "UserRegistration_validate unicode_sample (\<lambda>v vs. Inr v)
     \<lparr>email = Some (str_of ''Ann@Example.org''), username = Some (str_of ''Ann_1''),
      UserRegistration.password = Some (str_of ''Abcdef1@''),
      UserRegistration.confirm_password = Some (str_of ''Abcdef1@''),
      first_name = Some (str_of ''Ann''), last_name = Some (str_of ''Lee''), birth_date = None,
      accept_terms = Some True\<rparr> =
   Inr \<lparr>email = Some (str_of ''ann@example.org''), username = Some (str_of ''ann_1''),
      UserRegistration.password = Some (str_of ''Abcdef1@''),
      UserRegistration.confirm_password = Some (str_of ''Abcdef1@''),
      first_name = Some (str_of ''Ann''), last_name = Some (str_of ''Lee''), birth_date = None,
      accept_terms = Some True\<rparr> \<and>
   (\<exists>errs. errs \<noteq> [] \<and>
      UserRegistration_validate unicode_sample (\<lambda>v vs. Inr v)
        \<lparr>email = Some (str_of ''Ann@Example.org''), username = Some (str_of ''Ann_1''),
         UserRegistration.password = Some (str_of ''Abcdef1@''),
         UserRegistration.confirm_password = Some (str_of ''Abcdef1!''),
         first_name = Some (str_of ''Ann''), last_name = Some (str_of ''Lee''), birth_date = None,
         accept_terms = Some True\<rparr> = Inl errs) \<and>
   PasswordChange_validate unicode_sample \<lparr>current_password = Some (str_of ''old''),
     new_password = Some (str_of ''Abcdef1@''),
     PasswordChange.confirm_password = Some (str_of ''Abcdef1@'')\<rparr> =
   Inr \<lparr>current_password = Some (str_of ''old''), new_password = Some (str_of ''Abcdef1@''),
     PasswordChange.confirm_password = Some (str_of ''Abcdef1@'')\<rparr> \<and>
   (\<exists>errs. errs \<noteq> [] \<and>
      PasswordChange_validate unicode_sample \<lparr>current_password = Some (str_of ''old''),
        new_password = Some (str_of ''Abcdef1@''),
        PasswordChange.confirm_password = Some (str_of ''Abcdef1!'')\<rparr> = Inl errs) \<and>
   PasswordReset_validate unicode_sample \<lparr>token = Some (str_of ''t''),
     PasswordReset.password = Some (str_of ''Abcdef1@''),
     PasswordReset.confirm_password = Some (str_of ''Abcdef1@'')\<rparr> =
   Inr \<lparr>token = Some (str_of ''t''), PasswordReset.password = Some (str_of ''Abcdef1@''),
     PasswordReset.confirm_password = Some (str_of ''Abcdef1@'')\<rparr> \<and>
   (\<exists>errs. errs \<noteq> [] \<and>
      PasswordReset_validate unicode_sample \<lparr>token = Some (str_of ''t''),
        PasswordReset.password = Some (str_of ''Abcdef1@''),
        PasswordReset.confirm_password = None\<rparr> = Inl errs) \<and>
   UserRegistration.password
     \<lparr>email = Some (str_of ''Ann@Example.org''), username = Some (str_of ''Ann_1''),
      UserRegistration.password = Some (str_of ''Abcdef1@''),
      UserRegistration.confirm_password = Some (str_of ''Abcdef1@''),
      first_name = Some (str_of ''Ann''), last_name = Some (str_of ''Lee''), birth_date = None,
      accept_terms = Some True\<rparr> = Some (str_of ''Abcdef1@'') \<and>
   new_password \<lparr>current_password = Some (str_of ''old''),
     new_password = Some (str_of ''Abcdef1@''),
     PasswordChange.confirm_password = Some (str_of ''Abcdef1@'')\<rparr> = Some (str_of ''Abcdef1@'') \<and>
   PasswordReset.password \<lparr>token = Some (str_of ''t''),
     PasswordReset.password = Some (str_of ''Abcdef1@''),
     PasswordReset.confirm_password = Some (str_of ''Abcdef1@'')\<rparr> = Some (str_of ''Abcdef1@'')"
proof -
  let ?E = "\<lambda>(v::str) (vs::UserRegistration). (Inr v :: py_error + str)"
  let ?reg = "\<lparr>email = Some (str_of ''Ann@Example.org''), username = Some (str_of ''Ann_1''),
         UserRegistration.password = Some (str_of ''Abcdef1@''),
         UserRegistration.confirm_password = Some (str_of ''Abcdef1!''),
         first_name = Some (str_of ''Ann''), last_name = Some (str_of ''Lee''), birth_date = None,
         accept_terms = Some True\<rparr>"
  let ?chg = "\<lparr>current_password = Some (str_of ''old''),
    new_password = Some (str_of ''Abcdef1@''),
        PasswordChange.confirm_password = Some (str_of ''Abcdef1!'')\<rparr>"
  let ?rst = "\<lparr>token = Some (str_of ''t''),
    PasswordReset.password = Some (str_of ''Abcdef1@''),
        PasswordReset.confirm_password = None\<rparr>"
  note w = passwords_must_match [where U = unicode_sample and EmailStr = ?E and reg = ?reg and chg = ?chg and rst = ?rst]
  have n1: "UserRegistration.password ?reg \<noteq> UserRegistration.confirm_password ?reg"
    by (simp add: str_of_simps cp_def)
  have n2: "new_password ?chg \<noteq> PasswordChange.confirm_password ?chg"
    by (simp add: str_of_simps cp_def)
  have n3: "PasswordReset.password ?rst \<noteq> PasswordReset.confirm_password ?rst"
    by simp
  note e1 = w [THEN conjunct2, THEN conjunct1, THEN mp, OF n1]
  note e2 = w [THEN conjunct2, THEN conjunct2, THEN conjunct2, THEN conjunct1, THEN mp, OF n2]
  note e3 = w [THEN conjunct2, THEN conjunct2, THEN conjunct2, THEN conjunct2, THEN conjunct2,
               THEN mp, OF n3]
  have s1: "UserRegistration.password
     \<lparr>email = Some (str_of ''Ann@Example.org''), username = Some (str_of ''Ann_1''),
      UserRegistration.password = Some (str_of ''Abcdef1@''),
      UserRegistration.confirm_password = Some (str_of ''Abcdef1@''),
      first_name = Some (str_of ''Ann''), last_name = Some (str_of ''Lee''), birth_date = None,
      accept_terms = Some True\<rparr> = Some (str_of ''Abcdef1@'')"
    using passwords_must_match [where U = unicode_sample, THEN conjunct1, THEN mp,
      OF UserRegistration_example [of unicode_sample]]
    by simp
  have s2: "new_password \<lparr>current_password = Some (str_of ''old''),
    new_password = Some (str_of ''Abcdef1@''),
     PasswordChange.confirm_password = Some (str_of ''Abcdef1@'')\<rparr> = Some (str_of ''Abcdef1@'')"
    using passwords_must_match [where U = unicode_sample, THEN conjunct2, THEN conjunct2,
      THEN conjunct1, THEN mp,
        OF PasswordChange_example [of unicode_sample]]
    by simp
  have s3: "PasswordReset.password \<lparr>token = Some (str_of ''t''),
    PasswordReset.password = Some (str_of ''Abcdef1@''),
     PasswordReset.confirm_password = Some (str_of ''Abcdef1@'')\<rparr> = Some (str_of ''Abcdef1@'')"
    using passwords_must_match [where U = unicode_sample, THEN conjunct2, THEN conjunct2,
      THEN conjunct2, THEN conjunct2,
        THEN conjunct1, THEN mp, OF PasswordReset_example [of unicode_sample]]
    by simp
  show ?thesis
    by (intro conjI UserRegistration_example PasswordChange_example PasswordReset_example
          e1 e2 e3 s1 s2 s3)
qed

subsection \<open>Slugs\<close>


lemma one_simps [simp]:
  "one P [] = []"
  "one P (c # cs) = (if P c then [cs] else [])"
  by (simp_all add: one_def)

lemma find_one:
  "find (\<lambda>s'. True) (one P s) = (case s of [] \<Rightarrow> None | c # cs \<Rightarrow> if P c then Some cs else None)"
  by (simp add: one_def split: list.splits)























lemma star_refl: "s \<in> set (star f k s)"
  by (cases k) simp_all

lemma star_step:
  "s' \<in> set (f s) \<Longrightarrow> length s' < length s \<Longrightarrow> y \<in> set (star f k s') \<Longrightarrow>
   y \<in> set (star f (Suc k) s)"
  by auto

lemma star_mono: "y \<in> set (star f k s) \<Longrightarrow> k \<le> k' \<Longrightarrow> y \<in> set (star f k' s)"
proof (induction k arbitrary: k' s)
  case 0
  then show ?case by (simp add: star_refl)
next
  case (Suc k)
  from Suc.prems(2) obtain k'' where k': "k' = Suc k''" "k \<le> k''"
    by (cases k') auto
  from Suc.prems(1) consider "y = s"
    | s' where "s' \<in> set (f s)" "length s' < length s" "y \<in> set (star f k s')"
    by auto
  then show ?case
  proof cases
    case 1
    then show ?thesis by (simp add: star_refl)
  next
    case 2
    from Suc.IH [OF 2(3) k'(2)] have "y \<in> set (star f k'' s')" .
    with 2(1,2) show ?thesis
      unfolding k'(1) by (rule star_step)
  qed
qed


lemma concat_map_Cat_Nil [simp]: "concat (map (ends U n (Cat [])) xs) = xs"
  by (induction xs) simp_all



















end
